theory Spec2Isabelle
  imports Complex_Main "HOL-Library.Char_ord" "HOL-Library.List_Lexorder"
begin

section \<open>The background worker of the bot hosting platform\<close>

text \<open>
  The worker (\<^verbatim>\<open>src/unnamed/part_000\<close>, lines 1 to 420, the platform's
  \<^verbatim>\<open>worker.js\<close>) keeps two in-memory JavaScript \<^verbatim>\<open>Map\<close>s,
  \<^verbatim>\<open>BotManager.runningBots\<close> and \<^verbatim>\<open>WebsiteManager.deployedWebsites\<close>,
  in step with the \<^verbatim>\<open>status\<close> column of the tables \<^verbatim>\<open>bots\<close> and
  \<^verbatim>\<open>websites\<close> of an SQLite database.

  The embedding passes the whole state of the worker explicitly. What the code takes from
  its environment is part of that state, as scripts that the operations consume:
  \<^item> the outcome of each statement sent to the database (whether \<^verbatim>\<open>db.run\<close> or
    \<^verbatim>\<open>db.all\<close> calls back with \<^verbatim>\<open>err\<close>), one script per table;
  \<^item> the reading of \<^verbatim>\<open>new Date()\<close>, a clock in milliseconds;
  \<^item> the draws of \<^verbatim>\<open>Math.random()\<close>.

  A promise that rejects is the value \<open>Inl e\<close>, one that resolves with \<open>v\<close> is
  \<open>Inr v\<close>. \<^verbatim>\<open>console.log\<close> and \<^verbatim>\<open>console.error\<close> are not modelled.
\<close>

subsection \<open>JavaScript \<^verbatim>\<open>Map\<close> as an insertion-ordered association list\<close>

text \<open>
  \<^verbatim>\<open>Map.prototype.set\<close> overwrites the value of a key in place and appends a
  new key at the end; \<^verbatim>\<open>values()\<close> iterates in insertion order. A \<^verbatim>\<open>Map\<close>
  holds every key once: \<open>Map_wf\<close> says so, and every operation below keeps it.
\<close>

type_synonym ('k, 'v) js_map = "('k \<times> 'v) list"

definition Map_wf :: "('k, 'v) js_map \<Rightarrow> bool" where
  "Map_wf m = distinct (map fst m)"

definition Map_get :: "('k, 'v) js_map \<Rightarrow> 'k \<Rightarrow> 'v option" where
  "Map_get m k = map_of m k"

definition Map_has :: "('k, 'v) js_map \<Rightarrow> 'k \<Rightarrow> bool" where
  "Map_has m k = (map_of m k \<noteq> None)"

primrec Map_set :: "'k \<Rightarrow> 'v \<Rightarrow> ('k, 'v) js_map \<Rightarrow> ('k, 'v) js_map" where
  "Map_set k v [] = [(k, v)]"
| "Map_set k v (p # ps) = (if fst p = k then (k, v) # ps else p # Map_set k v ps)"

definition Map_delete :: "'k \<Rightarrow> ('k, 'v) js_map \<Rightarrow> ('k, 'v) js_map" where
  "Map_delete k m = filter (\<lambda>p. fst p \<noteq> k) m"

definition Map_values :: "('k, 'v) js_map \<Rightarrow> 'v list" where
  "Map_values m = map snd m"

text \<open>The number of entries a map holds under one key.\<close>

definition handles_for :: "('k, 'v) js_map \<Rightarrow> 'k \<Rightarrow> nat" where
  "handles_for m k = length (filter (\<lambda>p. fst p = k) m)"

subsection \<open>Template literals: a number printed in decimal\<close>

fun decimal :: "nat \<Rightarrow> string" where
  "decimal n =
     (if n < 10 then [''0123456789'' ! n]
      else decimal (n div 10) @ [''0123456789'' ! (n mod 10)])"

declare decimal.simps [simp del]

definition String_of :: "int \<Rightarrow> string" where
  "String_of i = (if i < 0 then CHR ''-'' # decimal (nat (- i)) else decimal (nat i))"

subsection \<open>Data\<close>

text \<open>
  The in-memory handles, field by field as the object literals of \<^verbatim>\<open>startBot\<close>
  (lines 30 to 35) and \<^verbatim>\<open>deployWebsite\<close> (lines 150 to 156) build them.
\<close>

record bot_process =
  bp_id :: int
  startTime :: nat
  bp_status :: string
  pid :: int

record deployment =
  dep_id :: int
  dep_domain :: string
  deployTime :: nat
  dep_status :: string
  dep_url :: string

text \<open>
  The rows of the two tables, with the columns the worker reads or writes
  (\<^verbatim>\<open>src/init.sql\<close>, lines 17 to 43); a nullable column is an \<open>option\<close>.
  The key \<^verbatim>\<open>id\<close> is the first component of the table's entries.
\<close>

record bot_row =
  b_file_path :: string
  b_status :: "string option"
  b_config :: "string option"
  b_updated_at :: nat

record website_row =
  s_domain :: "string option"
  s_file_path :: string
  s_status :: "string option"
  s_updated_at :: nat

datatype db_error = SQLITE_ERROR

text \<open>The third argument of \<^verbatim>\<open>startBot\<close>: a column value, or the literal \<^verbatim>\<open>{}\<close>.\<close>

datatype config_arg = Column "string option" | EmptyObject

text \<open>
  The state of the worker and of what it works on: the two maps, the two tables, the
  scripts of the environment, and \<open>exit_code\<close>, which is \<open>None\<close> while the process
  runs and \<open>Some c\<close> once it has exited with code \<open>c\<close>.
\<close>

record worker =
  runningBots :: "(int, bot_process) js_map"
  deployedWebsites :: "(int, deployment) js_map"
  bots :: "(int \<times> bot_row) list"
  websites :: "(int \<times> website_row) list"
  bots_faults :: "bool list"
  websites_faults :: "bool list"
  clock :: nat
  rands :: "rat list"
  exit_code :: "int option"

subsection \<open>The environment\<close>

text \<open>
  The head of a fault script tells whether the next statement on that table fails
  (\<open>True\<close>: it fails); an exhausted script means that no further statement fails. Every
  statement consumes the head.
\<close>

definition accepts :: "bool list \<Rightarrow> bool" where
  "accepts fs = (case fs of [] \<Rightarrow> True | failed # rest \<Rightarrow> \<not> failed)"

text \<open>\<^verbatim>\<open>Math.random()\<close>: the next draw; an exhausted script keeps drawing \<open>1/2\<close>.\<close>

definition Math_random :: "worker \<Rightarrow> rat \<times> worker" where
  "Math_random w = ((case rands w of [] \<Rightarrow> 1 / 2 | r # rest \<Rightarrow> r), w\<lparr>rands := tl (rands w)\<rparr>)"

text \<open>
  \<^verbatim>\<open>setTimeout(resolve, ms)\<close> awaited: at least \<open>ms\<close> milliseconds pass; the model
  lets exactly that many pass.
\<close>

definition sleep :: "nat \<Rightarrow> worker \<Rightarrow> worker" where
  "sleep ms w = w\<lparr>clock := clock w + ms\<rparr>"

subsection \<open>BotManager\<close>

text \<open>
  \<^verbatim>\<open>updateBotStatus\<close> (lines 84 to 95):
  \<^verbatim>\<open>UPDATE bots SET status = ?, updated_at = CURRENT_TIMESTAMP WHERE id = ?\<close>.
  The promise rejects when the statement fails and resolves with the number of rows
  changed otherwise; a statement that matches no row is not a failure.
\<close>

definition set_bot_status :: "int \<Rightarrow> string \<Rightarrow> nat \<Rightarrow> int \<times> bot_row \<Rightarrow> int \<times> bot_row" where
  "set_bot_status botId status now p =
     (if fst p = botId
      then (fst p, (snd p)\<lparr>b_status := Some status, b_updated_at := now\<rparr>)
      else p)"

definition updateBotStatus :: "int \<Rightarrow> string \<Rightarrow> worker \<Rightarrow> (db_error + nat) \<times> worker" where
  "updateBotStatus botId status w =
     (if accepts (bots_faults w)
      then (Inr (length (filter (\<lambda>p. fst p = botId) (bots w))),
            w\<lparr>bots_faults := tl (bots_faults w),
              bots := map (set_bot_status botId status (clock w)) (bots w)\<rparr>)
      else (Inl SQLITE_ERROR, w\<lparr>bots_faults := tl (bots_faults w)\<rparr>))"

text \<open>
  \<^verbatim>\<open>startBot\<close> (lines 16 to 49). The handle is put into the map before the status is
  written. When the write of \<^verbatim>\<open>'running'\<close> rejects, the \<^verbatim>\<open>catch\<close> block
  writes \<^verbatim>\<open>'error'\<close> and returns \<^verbatim>\<open>false\<close>; when that second write rejects
  too, the rejection leaves the \<^verbatim>\<open>catch\<close> block and \<^verbatim>\<open>startBot\<close> rejects.
  Neither \<^verbatim>\<open>botPath\<close> nor \<^verbatim>\<open>config\<close> is used by the body.
\<close>

definition startBot :: "int \<Rightarrow> string \<Rightarrow> config_arg \<Rightarrow> worker \<Rightarrow> (db_error + bool) \<times> worker" where
  "startBot botId botPath config w =
     (if Map_has (runningBots w) botId then (Inr False, w)
      else
        let botProcess = \<lparr>bp_id = botId, startTime = clock w, bp_status = ''running'',
                          pid = \<lfloor>fst (Math_random w) * 10000\<rfloor>\<rparr>;
            w1 = snd (Math_random w);
            w2 = w1\<lparr>runningBots := Map_set botId botProcess (runningBots w1)\<rparr>
        in case updateBotStatus botId ''running'' w2 of
             (Inr changes, w3) \<Rightarrow> (Inr True, w3)
           | (Inl e, w3) \<Rightarrow>
               (case updateBotStatus botId ''error'' w3 of
                  (Inr changes, w4) \<Rightarrow> (Inr False, w4)
                | (Inl e', w4) \<Rightarrow> (Inl e', w4)))"

text \<open>
  \<^verbatim>\<open>stopBot\<close> (lines 52 to 74). The handle is deleted before the status is written;
  the \<^verbatim>\<open>catch\<close> block only returns \<^verbatim>\<open>false\<close>, so \<^verbatim>\<open>stopBot\<close> never
  rejects.
\<close>

definition stopBot :: "int \<Rightarrow> worker \<Rightarrow> bool \<times> worker" where
  "stopBot botId w =
     (case Map_get (runningBots w) botId of
        None \<Rightarrow> (False, w)
      | Some botProcess \<Rightarrow>
          let w1 = w\<lparr>runningBots := Map_delete botId (runningBots w)\<rparr>
          in case updateBotStatus botId ''stopped'' w1 of
               (Inr changes, w2) \<Rightarrow> (True, w2)
             | (Inl e, w2) \<Rightarrow> (False, w2))"

text \<open>\<^verbatim>\<open>restartBot\<close> (lines 77 to 81): the result of \<^verbatim>\<open>stopBot\<close> is dropped.\<close>

definition restartBot :: "int \<Rightarrow> string \<Rightarrow> config_arg \<Rightarrow> worker \<Rightarrow> (db_error + bool) \<times> worker" where
  "restartBot botId botPath config w =
     (let w1 = snd (stopBot botId w);
          w2 = sleep 2000 w1
      in startBot botId botPath config w2)"

definition getRunningBots :: "worker \<Rightarrow> bot_process list" where
  "getRunningBots w = Map_values (runningBots w)"

subsection \<open>WebsiteManager\<close>

text \<open>\<^verbatim>\<open>updateWebsiteStatus\<close> (lines 197 to 208), on the table \<^verbatim>\<open>websites\<close>.\<close>

definition set_website_status ::
  "int \<Rightarrow> string \<Rightarrow> nat \<Rightarrow> int \<times> website_row \<Rightarrow> int \<times> website_row" where
  "set_website_status websiteId status now p =
     (if fst p = websiteId
      then (fst p, (snd p)\<lparr>s_status := Some status, s_updated_at := now\<rparr>)
      else p)"

definition updateWebsiteStatus :: "int \<Rightarrow> string \<Rightarrow> worker \<Rightarrow> (db_error + nat) \<times> worker" where
  "updateWebsiteStatus websiteId status w =
     (if accepts (websites_faults w)
      then (Inr (length (filter (\<lambda>p. fst p = websiteId) (websites w))),
            w\<lparr>websites_faults := tl (websites_faults w),
              websites := map (set_website_status websiteId status (clock w)) (websites w)\<rparr>)
      else (Inl SQLITE_ERROR, w\<lparr>websites_faults := tl (websites_faults w)\<rparr>))"

text \<open>
  \<^verbatim>\<open>domain || `${websiteId}.localhost`\<close>: \<^verbatim>\<open>null\<close> and the empty string are
  both falsy.
\<close>

definition domain_or_default :: "string option \<Rightarrow> int \<Rightarrow> string" where
  "domain_or_default domain websiteId =
     (case domain of
        None \<Rightarrow> String_of websiteId @ ''.localhost''
      | Some d \<Rightarrow> if d = [] then String_of websiteId @ ''.localhost'' else d)"

text \<open>
  \<^verbatim>\<open>deployWebsite\<close> (lines 136 to 168) resolves with the deployment object on
  success (\<open>Some\<close>) and with \<^verbatim>\<open>false\<close> otherwise (\<open>None\<close>).
\<close>

definition deployWebsite ::
  "int \<Rightarrow> string \<Rightarrow> string option \<Rightarrow> worker \<Rightarrow> (db_error + deployment option) \<times> worker" where
  "deployWebsite websiteId websitePath domain w =
     (if Map_has (deployedWebsites w) websiteId then (Inr None, w)
      else
        let deployment = \<lparr>dep_id = websiteId,
                          dep_domain = domain_or_default domain websiteId,
                          deployTime = clock w, dep_status = ''active'',
                          dep_url = ''https://'' @ domain_or_default domain websiteId\<rparr>;
            w1 = w\<lparr>deployedWebsites := Map_set websiteId deployment (deployedWebsites w)\<rparr>
        in case updateWebsiteStatus websiteId ''active'' w1 of
             (Inr changes, w2) \<Rightarrow> (Inr (Some deployment), w2)
           | (Inl e, w2) \<Rightarrow>
               (case updateWebsiteStatus websiteId ''error'' w2 of
                  (Inr changes, w3) \<Rightarrow> (Inr None, w3)
                | (Inl e', w3) \<Rightarrow> (Inl e', w3)))"

text \<open>\<^verbatim>\<open>undeployWebsite\<close> (lines 171 to 194).\<close>

definition undeployWebsite :: "int \<Rightarrow> worker \<Rightarrow> bool \<times> worker" where
  "undeployWebsite websiteId w =
     (case Map_get (deployedWebsites w) websiteId of
        None \<Rightarrow> (False, w)
      | Some deployment \<Rightarrow>
          let w1 = w\<lparr>deployedWebsites := Map_delete websiteId (deployedWebsites w)\<rparr>
          in case updateWebsiteStatus websiteId ''inactive'' w1 of
               (Inr changes, w2) \<Rightarrow> (True, w2)
             | (Inl e, w2) \<Rightarrow> (False, w2))"

subsection \<open>Health check (lines 103 to 126)\<close>

text \<open>
  The loop runs over the snapshot \<^verbatim>\<open>getRunningBots()\<close> took. Each entry is handled
  inside its own \<^verbatim>\<open>try\<close>: the only call that can reject there is
  \<^verbatim>\<open>restartBot\<close>, and the \<^verbatim>\<open>catch\<close> block answers with \<^verbatim>\<open>stopBot\<close>,
  which cannot reject. The simulated fault is a draw below \<^verbatim>\<open>0.01\<close>.
\<close>

fun healthCheck_loop :: "bot_process list \<Rightarrow> worker \<Rightarrow> worker" where
  "healthCheck_loop [] w = w"
| "healthCheck_loop (b # rest) w =
     (if fst (Math_random w) < 1 / 100
      then (case restartBot (bp_id b) [] EmptyObject (snd (Math_random w)) of
              (Inr restarted, w1) \<Rightarrow> healthCheck_loop rest w1
            | (Inl error, w1) \<Rightarrow> healthCheck_loop rest (snd (stopBot (bp_id b) w1)))
      else healthCheck_loop rest (snd (Math_random w)))"

definition healthCheck :: "worker \<Rightarrow> worker" where
  "healthCheck w = healthCheck_loop (getRunningBots w) w"

subsection \<open>Deployment status check (lines 241 to 273)\<close>

text \<open>
  \<^verbatim>\<open>SELECT * FROM bots WHERE status = "running"\<close>: the rows in table order, or the
  error the callback receives.
\<close>

definition select_bots :: "string \<Rightarrow> worker \<Rightarrow> (db_error + (int \<times> bot_row) list) \<times> worker" where
  "select_bots status w =
     (if accepts (bots_faults w)
      then (Inr (filter (\<lambda>p. b_status (snd p) = Some status) (bots w)),
            w\<lparr>bots_faults := tl (bots_faults w)\<rparr>)
      else (Inl SQLITE_ERROR, w\<lparr>bots_faults := tl (bots_faults w)\<rparr>))"

definition select_websites ::
  "string \<Rightarrow> worker \<Rightarrow> (db_error + (int \<times> website_row) list) \<times> worker" where
  "select_websites status w =
     (if accepts (websites_faults w)
      then (Inr (filter (\<lambda>p. s_status (snd p) = Some status) (websites w)),
            w\<lparr>websites_faults := tl (websites_faults w)\<rparr>)
      else (Inl SQLITE_ERROR, w\<lparr>websites_faults := tl (websites_faults w)\<rparr>))"

text \<open>
  The two \<^verbatim>\<open>for\<close> loops of the callbacks. An \<^verbatim>\<open>await\<close> whose promise rejects
  throws inside the \<^verbatim>\<open>async\<close> callback; no \<^verbatim>\<open>try\<close> surrounds it, so the
  loop ends there and the callback's own promise rejects.
\<close>

fun start_missing_bots :: "(int \<times> bot_row) list \<Rightarrow> worker \<Rightarrow> (db_error + unit) \<times> worker" where
  "start_missing_bots [] w = (Inr (), w)"
| "start_missing_bots (b # rest) w =
     (if \<not> Map_has (runningBots w) (fst b)
      then (case startBot (fst b) (b_file_path (snd b)) (Column (b_config (snd b))) w of
              (Inr started, w1) \<Rightarrow> start_missing_bots rest w1
            | (Inl error, w1) \<Rightarrow> (Inl error, w1))
      else start_missing_bots rest w)"

fun deploy_missing_websites ::
  "(int \<times> website_row) list \<Rightarrow> worker \<Rightarrow> (db_error + unit) \<times> worker" where
  "deploy_missing_websites [] w = (Inr (), w)"
| "deploy_missing_websites (website # rest) w =
     (if \<not> Map_has (deployedWebsites w) (fst website)
      then (case deployWebsite (fst website) (s_file_path (snd website))
                   (s_domain (snd website)) w of
              (Inr deployed, w1) \<Rightarrow> deploy_missing_websites rest w1
            | (Inl error, w1) \<Rightarrow> (Inl error, w1))
      else deploy_missing_websites rest w)"

text \<open>
  The callbacks of the two \<^verbatim>\<open>db.all\<close> calls. On \<^verbatim>\<open>err\<close> the callback logs
  and returns, which is a normal return.
\<close>

definition check_running_bots :: "worker \<Rightarrow> (db_error + unit) \<times> worker" where
  "check_running_bots w =
     (case select_bots ''running'' w of
        (Inl err, w1) \<Rightarrow> (Inr (), w1)
      | (Inr rows, w1) \<Rightarrow> start_missing_bots rows w1)"

definition check_active_websites :: "worker \<Rightarrow> (db_error + unit) \<times> worker" where
  "check_active_websites w =
     (case select_websites ''active'' w of
        (Inl err, w1) \<Rightarrow> (Inr (), w1)
      | (Inr rows, w1) \<Rightarrow> deploy_missing_websites rows w1)"

text \<open>
  A promise that nobody awaits or catches: the worker installs no handler for unhandled
  rejections, so when such a promise rejects, Node (from version 15 on; the platform asks
  for 18 or higher) ends the process with exit code 1.
\<close>

definition is_rejected :: "db_error + 'a \<Rightarrow> bool" where
  "is_rejected result = (case result of Inl error \<Rightarrow> True | Inr v \<Rightarrow> False)"

text \<open>
  One tick of the task. The two callbacks work on disjoint parts of the state (one map,
  one table and one fault script each, and neither moves the clock), so as long as
  neither rejects, running the bots' callback to its end before the websites' one gives
  the state every interleaving of them gives. The result lists what became of the two
  callbacks' promises. When one of them rejects the process ends with exit code 1; how
  far the other callback has got by then depends on the timing of the database's
  answers, and the model lets both run to their ends and then records the exit. The
  maps of a process that has exited are those it held when it ended.
\<close>

definition deployment_status_check ::
  "worker \<Rightarrow> ((db_error + unit) \<times> (db_error + unit)) \<times> worker" where
  "deployment_status_check w =
     (case check_running_bots w of
        (bots_result, w1) \<Rightarrow>
          (case check_active_websites w1 of
             (websites_result, w2) \<Rightarrow>
               ((bots_result, websites_result),
                if is_rejected bots_result \<or> is_rejected websites_result
                then w2\<lparr>exit_code := Some 1\<rparr> else w2)))"

subsection \<open>Signal handlers (lines 349 to 368)\<close>

text \<open>
  \<^verbatim>\<open>Promise.all(runningBots.map(bot => botManager.stopBot(bot.id)))\<close>: every call is
  made, in the order of the snapshot, and the results are collected. As
  \<^verbatim>\<open>stopBot\<close> never rejects, the \<^verbatim>\<open>.catch\<close> with \<^verbatim>\<open>process.exit(1)\<close>
  is never taken.
\<close>

fun stop_each :: "bot_process list \<Rightarrow> worker \<Rightarrow> bool list \<times> worker" where
  "stop_each [] w = ([], w)"
| "stop_each (b # rest) w =
     (case stopBot (bp_id b) w of
        (stopped, w1) \<Rightarrow>
          (case stop_each rest w1 of (results, w2) \<Rightarrow> (stopped # results, w2)))"

definition on_SIGTERM :: "worker \<Rightarrow> worker" where
  "on_SIGTERM w = (snd (stop_each (getRunningBots w) w))\<lparr>exit_code := Some 0\<rparr>"

definition on_SIGINT :: "worker \<Rightarrow> worker" where
  "on_SIGINT w = w\<lparr>exit_code := Some 0\<rparr>"

subsection \<open>Daily backup (lines 276 to 310)\<close>

text \<open>
  The part of the file system the task touches: the database file (absent or with some
  content) and the directory \<^verbatim>\<open>backups\<close> (absent, or its entries in the order
  \<^verbatim>\<open>readdirSync\<close> lists them, each name with the content of the file).
\<close>

record 'c filesystem =
  database_file :: "'c option"
  backups_dir :: "(string \<times> 'c) list option"

text \<open>\<^verbatim>\<open>toISOString().replace(/[:.]/g, '-')\<close>\<close>

definition replace_colon_dot :: "string \<Rightarrow> string" where
  "replace_colon_dot isoString =
     map (\<lambda>c. if c = CHR '':'' \<or> c = CHR ''.'' then CHR ''-'' else c) isoString"

definition startsWith :: "string \<Rightarrow> string \<Rightarrow> bool" where
  "startsWith file p = (take (length p) file = p)"

text \<open>
  \<^verbatim>\<open>fs.copyFileSync\<close> throws when the source does not exist (\<open>None\<close>); otherwise
  the destination is created, or overwritten where it is.
\<close>

definition copyFileSync :: "string \<Rightarrow> 'c filesystem \<Rightarrow> 'c filesystem option" where
  "copyFileSync dest fs =
     (case (database_file fs, backups_dir fs) of
        (Some content, Some entries) \<Rightarrow> Some (fs\<lparr>backups_dir := Some (Map_set dest content entries)\<rparr>)
      | _ \<Rightarrow> None)"

definition readdirSync :: "'c filesystem \<Rightarrow> string list" where
  "readdirSync fs = (case backups_dir fs of None \<Rightarrow> [] | Some entries \<Rightarrow> map fst entries)"

definition unlinkSync :: "string \<Rightarrow> 'c filesystem \<Rightarrow> 'c filesystem" where
  "unlinkSync file fs = fs\<lparr>backups_dir := map_option (Map_delete file) (backups_dir fs)\<rparr>"

text \<open>
  The task, given the value of \<^verbatim>\<open>new Date().toISOString()\<close>. The default
  \<^verbatim>\<open>sort()\<close> of an array of strings compares them code unit by code unit, which
  on \<open>string\<close> is the lexicographic order of the character codes. An exception of the
  copy is caught and logged: the clean-up is then skipped.
\<close>

definition backup_task :: "string \<Rightarrow> 'c filesystem \<Rightarrow> 'c filesystem" where
  "backup_task isoString fs =
     (let timestamp = replace_colon_dot isoString;
          fs1 = (if backups_dir fs = None then fs\<lparr>backups_dir := Some []\<rparr> else fs);
          backupPath = ''database-backup-'' @ timestamp @ ''.sqlite''
      in case copyFileSync backupPath fs1 of
           None \<Rightarrow> fs1
         | Some fs2 \<Rightarrow>
             let files = readdirSync fs2;
                 backupFiles = filter (\<lambda>file. startsWith file ''database-backup-'') files
             in if length backupFiles > 7
                then let sorted = sort backupFiles;
                         filesToDelete = take (length sorted - 7) sorted
                     in fold unlinkSync filesToDelete fs2
                else fs2)"

section \<open>Notions used in the statements\<close>

text \<open>The handle \<^verbatim>\<open>startBot\<close> builds in a state, and the one \<^verbatim>\<open>deployWebsite\<close> builds.\<close>

definition new_bot_process :: "int \<Rightarrow> worker \<Rightarrow> bot_process" where
  "new_bot_process botId w =
     \<lparr>bp_id = botId, startTime = clock w, bp_status = ''running'',
      pid = \<lfloor>fst (Math_random w) * 10000\<rfloor>\<rparr>"

definition new_deployment :: "int \<Rightarrow> string option \<Rightarrow> worker \<Rightarrow> deployment" where
  "new_deployment websiteId domain w =
     \<lparr>dep_id = websiteId, dep_domain = domain_or_default domain websiteId,
      deployTime = clock w, dep_status = ''active'',
      dep_url = ''https://'' @ domain_or_default domain websiteId\<rparr>"

text \<open>The state once \<^verbatim>\<open>startBot\<close> has put its handle into the map.\<close>

definition with_bot :: "int \<Rightarrow> worker \<Rightarrow> worker" where
  "with_bot botId w =
     w\<lparr>rands := tl (rands w),
       runningBots := runningBots w @ [(botId, new_bot_process botId w)]\<rparr>"

text \<open>
  Every handle of \<^verbatim>\<open>runningBots\<close> is filed under its own \<^verbatim>\<open>id\<close>, once:
  what holds of the map of a running worker, since \<^verbatim>\<open>startBot\<close> is the only
  writer.
\<close>

definition registry_ok :: "(int, bot_process) js_map \<Rightarrow> bool" where
  "registry_ok m = (Map_wf m \<and> list_all (\<lambda>p. bp_id (snd p) = fst p) m)"

text \<open>The status a table holds for an id (\<open>None\<close>: no such row, or \<^verbatim>\<open>NULL\<close>).\<close>

definition stored_bot_status :: "worker \<Rightarrow> int \<Rightarrow> string option" where
  "stored_bot_status w botId =
     (case map_of (bots w) botId of None \<Rightarrow> None | Some row \<Rightarrow> b_status row)"

definition stored_website_status :: "worker \<Rightarrow> int \<Rightarrow> string option" where
  "stored_website_status w websiteId =
     (case map_of (websites w) websiteId of None \<Rightarrow> None | Some row \<Rightarrow> s_status row)"

subsection \<open>The Reconciler in the words of the spec\<close>

text \<open>
  Section 4.3 of the spec: the Reconciler reads all lifecycle records whose desired
  status is the active variant; for each it checks registry membership and, if the id is
  absent, calls start with the record's persisted file path and config. The records of
  the spec are the rows of the tables; for a website the worker passes the row's
  \<^verbatim>\<open>domain\<close> where the spec says config.
\<close>

record 'cfg lifecycle_record =
  lr_id :: int
  lr_desiredStatus :: "string option"
  lr_filePath :: string
  lr_config :: 'cfg

definition spec_reconcile ::
  "string \<Rightarrow> (worker \<Rightarrow> int \<Rightarrow> bool) \<Rightarrow> (int \<Rightarrow> string \<Rightarrow> 'cfg \<Rightarrow> worker \<Rightarrow> worker) \<Rightarrow>
   'cfg lifecycle_record list \<Rightarrow> worker \<Rightarrow> worker" where
  "spec_reconcile active registered start records w =
     fold (\<lambda>r w. if registered w (lr_id r) then w
                  else start (lr_id r) (lr_filePath r) (lr_config r) w)
          (filter (\<lambda>r. lr_desiredStatus r = Some active) records) w"

definition bot_record :: "int \<times> bot_row \<Rightarrow> config_arg lifecycle_record" where
  "bot_record p =
     \<lparr>lr_id = fst p, lr_desiredStatus = b_status (snd p), lr_filePath = b_file_path (snd p),
      lr_config = Column (b_config (snd p))\<rparr>"

definition website_record :: "int \<times> website_row \<Rightarrow> string option lifecycle_record" where
  "website_record p =
     \<lparr>lr_id = fst p, lr_desiredStatus = s_status (snd p), lr_filePath = s_file_path (snd p),
      lr_config = s_domain (snd p)\<rparr>"

subsection \<open>Runs with two calls for one id\<close>

text \<open>
  A call runs unbroken only up to its next \<^verbatim>\<open>await\<close>. \<^verbatim>\<open>restartBot\<close> awaits its
  timer between its stop and its start (line 79), and nothing keeps another call for the
  same id from running meanwhile. The run in which, while \<^verbatim>\<open>restartBot(botId)\<close>
  waits, \<^verbatim>\<open>startBot(botId)\<close> is called and returns; the results are the one of that
  call and the one of the restart.
\<close>

definition start_within_restart ::
  "int \<Rightarrow> string \<Rightarrow> config_arg \<Rightarrow> worker \<Rightarrow> ((db_error + bool) \<times> (db_error + bool)) \<times> worker" where
  "start_within_restart botId botPath config w =
     (let w1 = snd (stopBot botId w);
          other = startBot botId botPath config w1;
          w2 = sleep 2000 (snd other);
          own = startBot botId botPath config w2
      in ((fst other, fst own), snd own))"

text \<open>The two runs in which the same two calls are made one after the other.\<close>

definition start_then_restart ::
  "int \<Rightarrow> string \<Rightarrow> config_arg \<Rightarrow> worker \<Rightarrow> ((db_error + bool) \<times> (db_error + bool)) \<times> worker" where
  "start_then_restart botId botPath config w =
     (let other = startBot botId botPath config w;
          own = restartBot botId botPath config (snd other)
      in ((fst other, fst own), snd own))"

definition restart_then_start ::
  "int \<Rightarrow> string \<Rightarrow> config_arg \<Rightarrow> worker \<Rightarrow> ((db_error + bool) \<times> (db_error + bool)) \<times> worker" where
  "restart_then_start botId botPath config w =
     (let own = restartBot botId botPath config w;
          other = startBot botId botPath config (snd own)
      in ((fst other, fst own), snd other))"

subsection \<open>Concrete states\<close>

text \<open>The worker right after start-up, with empty tables and a store that never fails.\<close>

definition idle_worker :: worker where
  "idle_worker =
     \<lparr>runningBots = [], deployedWebsites = [], bots = [], websites = [],
      bots_faults = [], websites_faults = [], clock = 0, rands = [], exit_code = None\<rparr>"

definition a_bot_row :: "string \<Rightarrow> bot_row" where
  "a_bot_row status =
     \<lparr>b_file_path = ''uploads/bot.zip'', b_status = Some status, b_config = None,
      b_updated_at = 0\<rparr>"

definition a_website_row :: "string \<Rightarrow> website_row" where
  "a_website_row status =
     \<lparr>s_domain = None, s_file_path = ''uploads/site.zip'', s_status = Some status,
      s_updated_at = 0\<rparr>"

subsection \<open>The backup directory\<close>

text \<open>The name \<^verbatim>\<open>backup_task\<close> gives the snapshot, and the snapshots a directory lists.\<close>

definition backupPath :: "string \<Rightarrow> string" where
  "backupPath isoString = ''database-backup-'' @ replace_colon_dot isoString @ ''.sqlite''"

definition backups_in :: "'c filesystem \<Rightarrow> string list" where
  "backups_in fs = filter (\<lambda>file. startsWith file ''database-backup-'') (readdirSync fs)"

text \<open>
  A listing of the directory with nine snapshots, the content of each standing for the
  state of the database that day, and one file that is no snapshot.
\<close>

definition nine_backups :: "(string \<times> nat) list" where
  "nine_backups =
     [(''database-backup-2024-03-05T04-00-00-012Z.sqlite'', 5),
      (''database-backup-2024-03-01T04-00-00-007Z.sqlite'', 1),
      (''database-backup-2024-03-09T04-00-00-003Z.sqlite'', 9),
      (''notes.txt'', 0),
      (''database-backup-2024-03-03T04-00-00-020Z.sqlite'', 3),
      (''database-backup-2024-03-02T04-00-00-015Z.sqlite'', 2),
      (''database-backup-2024-03-08T04-00-00-009Z.sqlite'', 8),
      (''database-backup-2024-03-04T04-00-00-011Z.sqlite'', 4),
      (''database-backup-2024-03-07T04-00-00-001Z.sqlite'', 7),
      (''database-backup-2024-03-06T04-00-00-030Z.sqlite'', 6)]"

text \<open>The entries of the directory once the snapshot has been copied in.\<close>

definition entries_after_copy :: "string \<Rightarrow> 'c \<Rightarrow> 'c filesystem \<Rightarrow> (string \<times> 'c) list" where
  "entries_after_copy isoString content fs =
     Map_set (backupPath isoString) content
       (case backups_dir fs of None \<Rightarrow> [] | Some entries \<Rightarrow> entries)"

text \<open>The snapshots the clean-up deletes, given those the directory lists.\<close>

definition doomed :: "string list \<Rightarrow> string list" where
  "doomed backupFiles = take (length backupFiles - 7) (sort backupFiles)"

text \<open>The snapshots the copy leaves in the directory, before the clean-up.\<close>

definition snapshots_after_copy :: "string \<Rightarrow> 'c filesystem \<Rightarrow> string list" where
  "snapshots_after_copy isoString fs =
     (if backupPath isoString \<in> set (readdirSync fs) then backups_in fs
      else backups_in fs @ [backupPath isoString])"

text \<open>The content of a file of the directory.\<close>

definition read_backup :: "'c filesystem \<Rightarrow> string \<Rightarrow> 'c option" where
  "read_backup fs file = (case backups_dir fs of None \<Rightarrow> None | Some entries \<Rightarrow> map_of entries file)"

section \<open>Properties\<close>

subsection \<open>The map operations\<close>

lemma Map_has_set: "Map_has (Map_set k v m) k' = (k' = k \<or> Map_has m k')"
  by (induction m) (auto simp: Map_has_def)

lemma Map_has_delete: "Map_has (Map_delete k m) k' = (k' \<noteq> k \<and> Map_has m k')"
  by (induction m) (auto simp: Map_has_def Map_delete_def)

lemma Map_get_delete: "Map_get (Map_delete k m) k' = (if k' = k then None else Map_get m k')"
  by (induction m) (auto simp: Map_get_def Map_delete_def)

lemma Map_has_iff_keys: "Map_has m k = (k \<in> fst ` set m)"
  by (induction m) (auto simp: Map_has_def)

lemma Map_has_get: "Map_has m k = (Map_get m k \<noteq> None)"
  by (simp add: Map_has_def Map_get_def)

lemma Map_set_absent: "\<not> Map_has m k \<Longrightarrow> Map_set k v m = m @ [(k, v)]"
  by (induction m) (auto simp: Map_has_def split: if_splits)

lemma Map_delete_absent: "\<not> Map_has m k \<Longrightarrow> Map_delete k m = m"
  by (induction m) (auto simp: Map_has_def Map_delete_def split: if_splits)

lemma Map_wf_delete: "Map_wf m \<Longrightarrow> Map_wf (Map_delete k m)"
  by (simp add: Map_wf_def Map_delete_def distinct_map_filter)

lemma Map_wf_append_new: "Map_wf m \<Longrightarrow> \<not> Map_has m k \<Longrightarrow> Map_wf (m @ [(k, v)])"
  by (simp add: Map_wf_def Map_has_iff_keys)

lemma Map_has_append_new: "Map_has (m @ [(k, v)]) k"
  by (simp add: Map_has_iff_keys)

lemma Map_get_append_old: "Map_has m k' \<Longrightarrow> Map_get (m @ n) k' = Map_get m k'"
  by (auto simp: Map_has_def Map_get_def map_add_def split: option.splits)


lemma handles_for_wf: "Map_wf m \<Longrightarrow> handles_for m k = (if Map_has m k then 1 else 0)"
  by (induction m) (auto simp: handles_for_def Map_wf_def Map_has_iff_keys image_iff)


lemma handles_for_delete: "handles_for (Map_delete k m) k = 0"
  by (induction m) (auto simp: handles_for_def Map_delete_def)


subsection \<open>\<^verbatim>\<open>startBot\<close> and \<^verbatim>\<open>stopBot\<close>, path by path\<close>

lemma startBot_present:
  "Map_has (runningBots w) botId \<Longrightarrow> startBot botId botPath config w = (Inr False, w)"
  by (simp add: startBot_def)

lemma startBot_accepted:
  "\<not> Map_has (runningBots w) botId \<Longrightarrow> accepts (bots_faults w) \<Longrightarrow>
   startBot botId botPath config w =
     (Inr True, (with_bot botId w)\<lparr>bots_faults := tl (bots_faults w),
        bots := map (set_bot_status botId ''running'' (clock w)) (bots w)\<rparr>)"
  by (simp add: startBot_def with_bot_def new_bot_process_def Let_def Map_set_absent
        updateBotStatus_def Math_random_def)

lemma startBot_refused_once:
  "\<not> Map_has (runningBots w) botId \<Longrightarrow> \<not> accepts (bots_faults w) \<Longrightarrow>
   accepts (tl (bots_faults w)) \<Longrightarrow>
   startBot botId botPath config w =
     (Inr False, (with_bot botId w)\<lparr>bots_faults := tl (tl (bots_faults w)),
        bots := map (set_bot_status botId ''error'' (clock w)) (bots w)\<rparr>)"
  by (simp add: startBot_def with_bot_def new_bot_process_def Let_def Map_set_absent
        updateBotStatus_def Math_random_def)

lemma startBot_refused_twice:
  "\<not> Map_has (runningBots w) botId \<Longrightarrow> \<not> accepts (bots_faults w) \<Longrightarrow>
   \<not> accepts (tl (bots_faults w)) \<Longrightarrow>
   startBot botId botPath config w =
     (Inl SQLITE_ERROR, (with_bot botId w)\<lparr>bots_faults := tl (tl (bots_faults w))\<rparr>)"
  by (simp add: startBot_def with_bot_def new_bot_process_def Let_def Map_set_absent
        updateBotStatus_def Math_random_def)

lemma startBot_runningBots:
  "runningBots (snd (startBot botId botPath config w)) =
     (if Map_has (runningBots w) botId then runningBots w
      else runningBots w @ [(botId, new_bot_process botId w)])"
  by (cases "accepts (bots_faults w)"; cases "accepts (tl (bots_faults w))")
     (simp_all add: startBot_present startBot_accepted startBot_refused_once
        startBot_refused_twice with_bot_def)

lemma stopBot_absent:
  "\<not> Map_has (runningBots w) botId \<Longrightarrow> stopBot botId w = (False, w)"
  by (simp add: stopBot_def Map_has_get)

lemma stopBot_accepted:
  "Map_has (runningBots w) botId \<Longrightarrow> accepts (bots_faults w) \<Longrightarrow>
   stopBot botId w =
     (True, w\<lparr>runningBots := Map_delete botId (runningBots w),
        bots_faults := tl (bots_faults w),
        bots := map (set_bot_status botId ''stopped'' (clock w)) (bots w)\<rparr>)"
  by (auto simp add: stopBot_def Map_has_get updateBotStatus_def)

lemma stopBot_refused:
  "Map_has (runningBots w) botId \<Longrightarrow> \<not> accepts (bots_faults w) \<Longrightarrow>
   stopBot botId w =
     (False, w\<lparr>runningBots := Map_delete botId (runningBots w),
        bots_faults := tl (bots_faults w)\<rparr>)"
  by (auto simp add: stopBot_def Map_has_get updateBotStatus_def)

lemma stopBot_runningBots:
  "runningBots (snd (stopBot botId w)) = Map_delete botId (runningBots w)"
proof (cases "Map_has (runningBots w) botId")
  case True
  then show ?thesis
    by (cases "accepts (bots_faults w)") (simp_all add: stopBot_accepted stopBot_refused)
next
  case False
  then show ?thesis by (simp add: stopBot_absent Map_delete_absent)
qed

subsection \<open>\<^verbatim>\<open>deployWebsite\<close> and \<^verbatim>\<open>undeployWebsite\<close>, path by path\<close>

lemma deployWebsite_present:
  "Map_has (deployedWebsites w) websiteId \<Longrightarrow>
   deployWebsite websiteId websitePath domain w = (Inr None, w)"
  by (simp add: deployWebsite_def)

lemma deployWebsite_accepted:
  "\<not> Map_has (deployedWebsites w) websiteId \<Longrightarrow> accepts (websites_faults w) \<Longrightarrow>
   deployWebsite websiteId websitePath domain w =
     (Inr (Some (new_deployment websiteId domain w)),
      w\<lparr>deployedWebsites := deployedWebsites w @ [(websiteId, new_deployment websiteId domain w)],
        websites_faults := tl (websites_faults w),
        websites := map (set_website_status websiteId ''active'' (clock w)) (websites w)\<rparr>)"
  by (simp add: deployWebsite_def new_deployment_def Let_def Map_set_absent updateWebsiteStatus_def)

lemma deployWebsite_refused_once:
  "\<not> Map_has (deployedWebsites w) websiteId \<Longrightarrow> \<not> accepts (websites_faults w) \<Longrightarrow>
   accepts (tl (websites_faults w)) \<Longrightarrow>
   deployWebsite websiteId websitePath domain w =
     (Inr None,
      w\<lparr>deployedWebsites := deployedWebsites w @ [(websiteId, new_deployment websiteId domain w)],
        websites_faults := tl (tl (websites_faults w)),
        websites := map (set_website_status websiteId ''error'' (clock w)) (websites w)\<rparr>)"
  by (simp add: deployWebsite_def new_deployment_def Let_def Map_set_absent updateWebsiteStatus_def)

lemma deployWebsite_refused_twice:
  "\<not> Map_has (deployedWebsites w) websiteId \<Longrightarrow> \<not> accepts (websites_faults w) \<Longrightarrow>
   \<not> accepts (tl (websites_faults w)) \<Longrightarrow>
   deployWebsite websiteId websitePath domain w =
     (Inl SQLITE_ERROR,
      w\<lparr>deployedWebsites := deployedWebsites w @ [(websiteId, new_deployment websiteId domain w)],
        websites_faults := tl (tl (websites_faults w))\<rparr>)"
  by (simp add: deployWebsite_def new_deployment_def Let_def Map_set_absent updateWebsiteStatus_def)

lemma deployWebsite_deployedWebsites:
  "deployedWebsites (snd (deployWebsite websiteId websitePath domain w)) =
     (if Map_has (deployedWebsites w) websiteId then deployedWebsites w
      else deployedWebsites w @ [(websiteId, new_deployment websiteId domain w)])"
  by (cases "accepts (websites_faults w)"; cases "accepts (tl (websites_faults w))")
     (simp_all add: deployWebsite_present deployWebsite_accepted deployWebsite_refused_once
        deployWebsite_refused_twice)

lemma undeployWebsite_absent:
  "\<not> Map_has (deployedWebsites w) websiteId \<Longrightarrow> undeployWebsite websiteId w = (False, w)"
  by (simp add: undeployWebsite_def Map_has_get)

lemma undeployWebsite_accepted:
  "Map_has (deployedWebsites w) websiteId \<Longrightarrow> accepts (websites_faults w) \<Longrightarrow>
   undeployWebsite websiteId w =
     (True, w\<lparr>deployedWebsites := Map_delete websiteId (deployedWebsites w),
        websites_faults := tl (websites_faults w),
        websites := map (set_website_status websiteId ''inactive'' (clock w)) (websites w)\<rparr>)"
  by (auto simp add: undeployWebsite_def Map_has_get updateWebsiteStatus_def)

lemma undeployWebsite_refused:
  "Map_has (deployedWebsites w) websiteId \<Longrightarrow> \<not> accepts (websites_faults w) \<Longrightarrow>
   undeployWebsite websiteId w =
     (False, w\<lparr>deployedWebsites := Map_delete websiteId (deployedWebsites w),
        websites_faults := tl (websites_faults w)\<rparr>)"
  by (auto simp add: undeployWebsite_def Map_has_get updateWebsiteStatus_def)

lemma undeployWebsite_deployedWebsites:
  "deployedWebsites (snd (undeployWebsite websiteId w)) =
     Map_delete websiteId (deployedWebsites w)"
proof (cases "Map_has (deployedWebsites w) websiteId")
  case True
  then show ?thesis
    by (cases "accepts (websites_faults w)")
       (simp_all add: undeployWebsite_accepted undeployWebsite_refused)
next
  case False
  then show ?thesis by (simp add: undeployWebsite_absent Map_delete_absent)
qed

subsection \<open>What a status write leaves in the table\<close>

lemma set_bot_status_rows:
  "\<forall>p\<in>set (map (set_bot_status botId status now) rows).
      fst p = botId \<longrightarrow> b_status (snd p) = Some status"
  "map fst (map (set_bot_status botId status now) rows) = map fst rows"
  "filter (\<lambda>p. fst p \<noteq> botId) (map (set_bot_status botId status now) rows)
     = filter (\<lambda>p. fst p \<noteq> botId) rows"
proof -
  have one: "fst (set_bot_status botId status now p) = fst p"
    "fst p = botId \<Longrightarrow> b_status (snd (set_bot_status botId status now p)) = Some status"
    "fst p \<noteq> botId \<Longrightarrow> set_bot_status botId status now p = p" for p
    by (simp_all add: set_bot_status_def)
  show "\<forall>p\<in>set (map (set_bot_status botId status now) rows).
      fst p = botId \<longrightarrow> b_status (snd p) = Some status"
    by (simp add: one)
  show "map fst (map (set_bot_status botId status now) rows) = map fst rows"
    by (simp add: one comp_def)
  show "filter (\<lambda>p. fst p \<noteq> botId) (map (set_bot_status botId status now) rows)
     = filter (\<lambda>p. fst p \<noteq> botId) rows"
    by (induction rows) (simp_all add: one)
qed

lemma set_website_status_rows:
  "\<forall>p\<in>set (map (set_website_status websiteId status now) rows).
      fst p = websiteId \<longrightarrow> s_status (snd p) = Some status"
  "map fst (map (set_website_status websiteId status now) rows) = map fst rows"
  "filter (\<lambda>p. fst p \<noteq> websiteId) (map (set_website_status websiteId status now) rows)
     = filter (\<lambda>p. fst p \<noteq> websiteId) rows"
proof -
  have one: "fst (set_website_status websiteId status now p) = fst p"
    "fst p = websiteId \<Longrightarrow>
       s_status (snd (set_website_status websiteId status now p)) = Some status"
    "fst p \<noteq> websiteId \<Longrightarrow> set_website_status websiteId status now p = p" for p
    by (simp_all add: set_website_status_def)
  show "\<forall>p\<in>set (map (set_website_status websiteId status now) rows).
      fst p = websiteId \<longrightarrow> s_status (snd p) = Some status"
    by (simp add: one)
  show "map fst (map (set_website_status websiteId status now) rows) = map fst rows"
    by (simp add: one comp_def)
  show "filter (\<lambda>p. fst p \<noteq> websiteId) (map (set_website_status websiteId status now) rows)
     = filter (\<lambda>p. fst p \<noteq> websiteId) rows"
    by (induction rows) (simp_all add: one)
qed

lemma stored_status_of_rows:
  assumes "\<forall>p\<in>set rows. fst p = k \<longrightarrow> f (snd p) = Some status" and "k \<in> set (map fst rows)"
  shows "(case map_of rows k of None \<Rightarrow> None | Some row \<Rightarrow> f row) = Some status"
  using assms by (induction rows) (auto split: if_splits)

subsection \<open>Starting\<close>





subsection \<open>Stopping\<close>

text \<open>
  Claim C2, as amended. A stop for an id without a handle returns \<^verbatim>\<open>false\<close> and
  changes neither the map nor the table. For an id with a handle, the handle is removed
  from the map; when the store accepts the write, the call returns \<^verbatim>\<open>true\<close>, every
  row of that id reads \<^verbatim>\<open>stopped\<close> (bots) or \<^verbatim>\<open>inactive\<close> (websites)
  afterwards, no row is added or removed and the rows of the other ids are as they were;
  when the store refuses the write, the call returns \<^verbatim>\<open>false\<close> and the table is as
  it was. Whatever the call returns, the map holds no handle under that id afterwards.
\<close>

theorem stop_removes_handle:
  "(\<not> Map_has (runningBots w) botId \<longrightarrow> stopBot botId w = (False, w)) \<and>
   (Map_has (runningBots w) botId \<longrightarrow>
      runningBots (snd (stopBot botId w)) = Map_delete botId (runningBots w) \<and>
      (accepts (bots_faults w) \<longrightarrow>
         fst (stopBot botId w) = True \<and>
         (\<forall>p\<in>set (bots (snd (stopBot botId w))).
            fst p = botId \<longrightarrow> b_status (snd p) = Some ''stopped'') \<and>
         map fst (bots (snd (stopBot botId w))) = map fst (bots w) \<and>
         filter (\<lambda>p. fst p \<noteq> botId) (bots (snd (stopBot botId w)))
           = filter (\<lambda>p. fst p \<noteq> botId) (bots w) \<and>
         bots (snd (stopBot botId w))
           = map (set_bot_status botId ''stopped'' (clock w)) (bots w)) \<and>
      (\<not> accepts (bots_faults w) \<longrightarrow>
         fst (stopBot botId w) = False \<and> bots (snd (stopBot botId w)) = bots w)) \<and>
   \<not> Map_has (runningBots (snd (stopBot botId w))) botId \<and>
   handles_for (runningBots (snd (stopBot botId w))) botId = 0 \<and>
   (\<not> Map_has (deployedWebsites w) websiteId \<longrightarrow> undeployWebsite websiteId w = (False, w)) \<and>
   (Map_has (deployedWebsites w) websiteId \<longrightarrow>
      deployedWebsites (snd (undeployWebsite websiteId w))
        = Map_delete websiteId (deployedWebsites w) \<and>
      (accepts (websites_faults w) \<longrightarrow>
         fst (undeployWebsite websiteId w) = True \<and>
         (\<forall>p\<in>set (websites (snd (undeployWebsite websiteId w))).
            fst p = websiteId \<longrightarrow> s_status (snd p) = Some ''inactive'') \<and>
         map fst (websites (snd (undeployWebsite websiteId w))) = map fst (websites w) \<and>
         filter (\<lambda>p. fst p \<noteq> websiteId) (websites (snd (undeployWebsite websiteId w)))
           = filter (\<lambda>p. fst p \<noteq> websiteId) (websites w) \<and>
         websites (snd (undeployWebsite websiteId w))
           = map (set_website_status websiteId ''inactive'' (clock w)) (websites w)) \<and>
      (\<not> accepts (websites_faults w) \<longrightarrow>
         fst (undeployWebsite websiteId w) = False \<and>
         websites (snd (undeployWebsite websiteId w)) = websites w)) \<and>
   \<not> Map_has (deployedWebsites (snd (undeployWebsite websiteId w))) websiteId \<and>
   handles_for (deployedWebsites (snd (undeployWebsite websiteId w))) websiteId = 0"
  using set_bot_status_rows [of botId "''stopped''" "clock w" "bots w"]
        set_website_status_rows [of websiteId "''inactive''" "clock w" "websites w"]
  by (simp add: stopBot_absent stopBot_runningBots stopBot_accepted stopBot_refused
        undeployWebsite_absent undeployWebsite_deployedWebsites undeployWebsite_accepted
        undeployWebsite_refused Map_has_delete handles_for_delete)

text \<open>
  The theorem at a worker with bot 5 running and website 7 deployed, the store accepting
  the writes: both stops return \<^verbatim>\<open>true\<close>, the handles are gone and the rows read
  \<^verbatim>\<open>stopped\<close> and \<^verbatim>\<open>inactive\<close>.
\<close>

theorem stop_removes_handle_witness:
  "Map_has (runningBots (idle_worker\<lparr>
       runningBots := [(5, new_bot_process 5 idle_worker)],
       deployedWebsites := [(7, new_deployment 7 None idle_worker)],
       bots := [(5, a_bot_row ''running'')], websites := [(7, a_website_row ''active'')]\<rparr>)) 5 \<and>
   accepts (bots_faults (idle_worker\<lparr>
       runningBots := [(5, new_bot_process 5 idle_worker)],
       deployedWebsites := [(7, new_deployment 7 None idle_worker)],
       bots := [(5, a_bot_row ''running'')], websites := [(7, a_website_row ''active'')]\<rparr>)) \<and>
   Map_has (deployedWebsites (idle_worker\<lparr>
       runningBots := [(5, new_bot_process 5 idle_worker)],
       deployedWebsites := [(7, new_deployment 7 None idle_worker)],
       bots := [(5, a_bot_row ''running'')], websites := [(7, a_website_row ''active'')]\<rparr>)) 7 \<and>
   accepts (websites_faults (idle_worker\<lparr>
       runningBots := [(5, new_bot_process 5 idle_worker)],
       deployedWebsites := [(7, new_deployment 7 None idle_worker)],
       bots := [(5, a_bot_row ''running'')], websites := [(7, a_website_row ''active'')]\<rparr>)) \<and>
   fst (stopBot 5 (idle_worker\<lparr>
       runningBots := [(5, new_bot_process 5 idle_worker)],
       deployedWebsites := [(7, new_deployment 7 None idle_worker)],
       bots := [(5, a_bot_row ''running'')], websites := [(7, a_website_row ''active'')]\<rparr>)) = True \<and>
   runningBots (snd (stopBot 5 (idle_worker\<lparr>
       runningBots := [(5, new_bot_process 5 idle_worker)],
       deployedWebsites := [(7, new_deployment 7 None idle_worker)],
       bots := [(5, a_bot_row ''running'')], websites := [(7, a_website_row ''active'')]\<rparr>))) = [] \<and>
   stored_bot_status (snd (stopBot 5 (idle_worker\<lparr>
       runningBots := [(5, new_bot_process 5 idle_worker)],
       deployedWebsites := [(7, new_deployment 7 None idle_worker)],
       bots := [(5, a_bot_row ''running'')], websites := [(7, a_website_row ''active'')]\<rparr>))) 5
     = Some ''stopped'' \<and>
   fst (undeployWebsite 7 (idle_worker\<lparr>
       runningBots := [(5, new_bot_process 5 idle_worker)],
       deployedWebsites := [(7, new_deployment 7 None idle_worker)],
       bots := [(5, a_bot_row ''running'')], websites := [(7, a_website_row ''active'')]\<rparr>)) = True \<and>
   deployedWebsites (snd (undeployWebsite 7 (idle_worker\<lparr>
       runningBots := [(5, new_bot_process 5 idle_worker)],
       deployedWebsites := [(7, new_deployment 7 None idle_worker)],
       bots := [(5, a_bot_row ''running'')], websites := [(7, a_website_row ''active'')]\<rparr>))) = [] \<and>
   stored_website_status (snd (undeployWebsite 7 (idle_worker\<lparr>
       runningBots := [(5, new_bot_process 5 idle_worker)],
       deployedWebsites := [(7, new_deployment 7 None idle_worker)],
       bots := [(5, a_bot_row ''running'')], websites := [(7, a_website_row ''active'')]\<rparr>))) 7
     = Some ''inactive'' \<and>
   bots (snd (stopBot 5 (idle_worker\<lparr>
       runningBots := [(5, new_bot_process 5 idle_worker)],
       deployedWebsites := [(7, new_deployment 7 None idle_worker)],
       bots := [(5, a_bot_row ''running'')], websites := [(7, a_website_row ''active'')]\<rparr>)))
     = [(5, a_bot_row ''stopped'')] \<and>
   websites (snd (undeployWebsite 7 (idle_worker\<lparr>
       runningBots := [(5, new_bot_process 5 idle_worker)],
       deployedWebsites := [(7, new_deployment 7 None idle_worker)],
       bots := [(5, a_bot_row ''running'')], websites := [(7, a_website_row ''active'')]\<rparr>)))
     = [(7, a_website_row ''inactive'')]"
proof -
  let ?w = "idle_worker\<lparr>
       runningBots := [(5, new_bot_process 5 idle_worker)],
       deployedWebsites := [(7, new_deployment 7 None idle_worker)],
       bots := [(5, a_bot_row ''running'')], websites := [(7, a_website_row ''active'')]\<rparr>"
  have has: "Map_has (runningBots ?w) 5" "Map_has (deployedWebsites ?w) 7"
    by (simp_all add: Map_has_def)
  have ok: "accepts (bots_faults ?w)" "accepts (websites_faults ?w)"
    by (simp_all add: idle_worker_def accepts_def)
  have gone: "Map_delete 5 (runningBots ?w) = []" "Map_delete 7 (deployedWebsites ?w) = []"
    by (simp_all add: Map_delete_def)
  note claim = stop_removes_handle [of ?w 5 7]
  from claim has ok have bot:
    "fst (stopBot 5 ?w) = True"
    "runningBots (snd (stopBot 5 ?w)) = Map_delete 5 (runningBots ?w)"
    "\<forall>p\<in>set (bots (snd (stopBot 5 ?w))). fst p = 5 \<longrightarrow> b_status (snd p) = Some ''stopped''"
    "map fst (bots (snd (stopBot 5 ?w))) = map fst (bots ?w)"
    by blast+
  from claim has ok have site:
    "fst (undeployWebsite 7 ?w) = True"
    "deployedWebsites (snd (undeployWebsite 7 ?w)) = Map_delete 7 (deployedWebsites ?w)"
    "\<forall>p\<in>set (websites (snd (undeployWebsite 7 ?w))). fst p = 7 \<longrightarrow> s_status (snd p) = Some ''inactive''"
    "map fst (websites (snd (undeployWebsite 7 ?w))) = map fst (websites ?w)"
    by blast+
  have "stored_bot_status (snd (stopBot 5 ?w)) 5 = Some ''stopped''"
    unfolding stored_bot_status_def
    by (rule stored_status_of_rows [OF bot(3)]) (simp add: bot(4))
  moreover have "stored_website_status (snd (undeployWebsite 7 ?w)) 7 = Some ''inactive''"
    unfolding stored_website_status_def
    by (rule stored_status_of_rows [OF site(3)]) (simp add: site(4))
  moreover have "bots (snd (stopBot 5 ?w)) = [(5, a_bot_row ''stopped'')]"
    by (simp add: stopBot_def idle_worker_def Map_get_def updateBotStatus_def accepts_def
          set_bot_status_def a_bot_row_def)
  moreover have "websites (snd (undeployWebsite 7 ?w)) = [(7, a_website_row ''inactive'')]"
    by (simp add: undeployWebsite_def idle_worker_def Map_get_def updateWebsiteStatus_def
          accepts_def set_website_status_def a_website_row_def)
  ultimately show ?thesis
    using has ok bot(1) site(1) bot(2) [unfolded gone] site(2) [unfolded gone]
    by (intro conjI)
qed

text \<open>
  Claim C2 as stated fails: it has every stop that finds a handle persist the stopped
  status and return \<^verbatim>\<open>true\<close>. At the same worker with a store that refuses the
  writes, bot 5 and website 7 have handles, yet both stops return \<^verbatim>\<open>false\<close> and the
  rows still read \<^verbatim>\<open>running\<close> and \<^verbatim>\<open>active\<close>.
\<close>

theorem stop_refused_returns_false:
  "Map_has (runningBots (idle_worker\<lparr>
       runningBots := [(5, new_bot_process 5 idle_worker)],
       deployedWebsites := [(7, new_deployment 7 None idle_worker)],
       bots := [(5, a_bot_row ''running'')], websites := [(7, a_website_row ''active'')],
       bots_faults := [True], websites_faults := [True]\<rparr>)) 5 \<and>
   fst (stopBot 5 (idle_worker\<lparr>
       runningBots := [(5, new_bot_process 5 idle_worker)],
       deployedWebsites := [(7, new_deployment 7 None idle_worker)],
       bots := [(5, a_bot_row ''running'')], websites := [(7, a_website_row ''active'')],
       bots_faults := [True], websites_faults := [True]\<rparr>)) = False \<and>
   stored_bot_status (snd (stopBot 5 (idle_worker\<lparr>
       runningBots := [(5, new_bot_process 5 idle_worker)],
       deployedWebsites := [(7, new_deployment 7 None idle_worker)],
       bots := [(5, a_bot_row ''running'')], websites := [(7, a_website_row ''active'')],
       bots_faults := [True], websites_faults := [True]\<rparr>))) 5 = Some ''running'' \<and>
   Map_has (deployedWebsites (idle_worker\<lparr>
       runningBots := [(5, new_bot_process 5 idle_worker)],
       deployedWebsites := [(7, new_deployment 7 None idle_worker)],
       bots := [(5, a_bot_row ''running'')], websites := [(7, a_website_row ''active'')],
       bots_faults := [True], websites_faults := [True]\<rparr>)) 7 \<and>
   fst (undeployWebsite 7 (idle_worker\<lparr>
       runningBots := [(5, new_bot_process 5 idle_worker)],
       deployedWebsites := [(7, new_deployment 7 None idle_worker)],
       bots := [(5, a_bot_row ''running'')], websites := [(7, a_website_row ''active'')],
       bots_faults := [True], websites_faults := [True]\<rparr>)) = False \<and>
   stored_website_status (snd (undeployWebsite 7 (idle_worker\<lparr>
       runningBots := [(5, new_bot_process 5 idle_worker)],
       deployedWebsites := [(7, new_deployment 7 None idle_worker)],
       bots := [(5, a_bot_row ''running'')], websites := [(7, a_website_row ''active'')],
       bots_faults := [True], websites_faults := [True]\<rparr>))) 7 = Some ''active''"
  by (simp add: stopBot_def undeployWebsite_def Map_has_def Map_get_def Map_delete_def
        updateBotStatus_def updateWebsiteStatus_def accepts_def stored_bot_status_def
        stored_website_status_def a_bot_row_def a_website_row_def)

lemma stopBot_false_iff:
  "fst (stopBot botId w) = False \<longleftrightarrow>
     \<not> Map_has (runningBots w) botId \<or> \<not> accepts (bots_faults w)"
  by (cases "Map_has (runningBots w) botId"; cases "accepts (bots_faults w)")
     (simp_all add: stopBot_absent stopBot_accepted stopBot_refused)

lemma undeployWebsite_false_iff:
  "fst (undeployWebsite websiteId w) = False \<longleftrightarrow>
     \<not> Map_has (deployedWebsites w) websiteId \<or> \<not> accepts (websites_faults w)"
  by (cases "Map_has (deployedWebsites w) websiteId"; cases "accepts (websites_faults w)")
     (simp_all add: undeployWebsite_absent undeployWebsite_accepted undeployWebsite_refused)

lemma Map_delete_present: "Map_has m k \<Longrightarrow> Map_delete k m \<noteq> m"
  using Map_has_delete [of k m k] by auto

text \<open>
  Claim C10. When a handle exists and the store refuses the write of the stopped status,
  the stop returns \<^verbatim>\<open>false\<close> although the handle has been removed from the map; the
  table is as before. A stop returns \<^verbatim>\<open>false\<close> exactly when there was no handle or
  the write was refused, so \<^verbatim>\<open>false\<close> does not tell that the map is unchanged.
\<close>

theorem stop_refused_write:
  "(Map_has (runningBots w) botId \<and> \<not> accepts (bots_faults w) \<longrightarrow>
      fst (stopBot botId w) = False \<and>
      runningBots (snd (stopBot botId w)) = Map_delete botId (runningBots w) \<and>
      runningBots (snd (stopBot botId w)) \<noteq> runningBots w \<and>
      \<not> Map_has (runningBots (snd (stopBot botId w))) botId \<and>
      bots (snd (stopBot botId w)) = bots w) \<and>
   (fst (stopBot botId w) = False \<longleftrightarrow>
      \<not> Map_has (runningBots w) botId \<or> \<not> accepts (bots_faults w)) \<and>
   (Map_has (deployedWebsites w) websiteId \<and> \<not> accepts (websites_faults w) \<longrightarrow>
      fst (undeployWebsite websiteId w) = False \<and>
      deployedWebsites (snd (undeployWebsite websiteId w))
        = Map_delete websiteId (deployedWebsites w) \<and>
      deployedWebsites (snd (undeployWebsite websiteId w)) \<noteq> deployedWebsites w \<and>
      \<not> Map_has (deployedWebsites (snd (undeployWebsite websiteId w))) websiteId \<and>
      websites (snd (undeployWebsite websiteId w)) = websites w) \<and>
   (fst (undeployWebsite websiteId w) = False \<longleftrightarrow>
      \<not> Map_has (deployedWebsites w) websiteId \<or> \<not> accepts (websites_faults w))"
  using stopBot_false_iff [of botId w] undeployWebsite_false_iff [of websiteId w]
  by (simp add: stopBot_refused undeployWebsite_refused Map_has_delete Map_delete_present)

text \<open>
  The theorem at a running bot and a deployed website whose status writes the store
  refuses: both stops return \<^verbatim>\<open>false\<close> and both maps are empty afterwards.
\<close>

theorem stop_refused_write_witness:
  "Map_has (runningBots (idle_worker\<lparr>runningBots := [(5, new_bot_process 5 idle_worker)],
       deployedWebsites := [(7, new_deployment 7 None idle_worker)],
       bots_faults := [True], websites_faults := [True]\<rparr>)) 5 \<and>
   \<not> accepts (bots_faults (idle_worker\<lparr>runningBots := [(5, new_bot_process 5 idle_worker)],
       deployedWebsites := [(7, new_deployment 7 None idle_worker)],
       bots_faults := [True], websites_faults := [True]\<rparr>)) \<and>
   Map_has (deployedWebsites (idle_worker\<lparr>runningBots := [(5, new_bot_process 5 idle_worker)],
       deployedWebsites := [(7, new_deployment 7 None idle_worker)],
       bots_faults := [True], websites_faults := [True]\<rparr>)) 7 \<and>
   \<not> accepts (websites_faults (idle_worker\<lparr>runningBots := [(5, new_bot_process 5 idle_worker)],
       deployedWebsites := [(7, new_deployment 7 None idle_worker)],
       bots_faults := [True], websites_faults := [True]\<rparr>)) \<and>
   fst (stopBot 5 (idle_worker\<lparr>runningBots := [(5, new_bot_process 5 idle_worker)],
       deployedWebsites := [(7, new_deployment 7 None idle_worker)],
       bots_faults := [True], websites_faults := [True]\<rparr>)) = False \<and>
   runningBots (snd (stopBot 5 (idle_worker\<lparr>runningBots := [(5, new_bot_process 5 idle_worker)],
       deployedWebsites := [(7, new_deployment 7 None idle_worker)],
       bots_faults := [True], websites_faults := [True]\<rparr>))) = [] \<and>
   fst (undeployWebsite 7 (idle_worker\<lparr>runningBots := [(5, new_bot_process 5 idle_worker)],
       deployedWebsites := [(7, new_deployment 7 None idle_worker)],
       bots_faults := [True], websites_faults := [True]\<rparr>)) = False \<and>
   deployedWebsites (snd (undeployWebsite 7 (idle_worker\<lparr>runningBots := [(5, new_bot_process 5 idle_worker)],
       deployedWebsites := [(7, new_deployment 7 None idle_worker)],
       bots_faults := [True], websites_faults := [True]\<rparr>))) = []"
proof -
  let ?w = "idle_worker\<lparr>runningBots := [(5, new_bot_process 5 idle_worker)],
       deployedWebsites := [(7, new_deployment 7 None idle_worker)],
       bots_faults := [True], websites_faults := [True]\<rparr>"
  have has: "Map_has (runningBots ?w) 5" "Map_has (deployedWebsites ?w) 7"
    by (simp_all add: Map_has_def)
  have refused: "\<not> accepts (bots_faults ?w)" "\<not> accepts (websites_faults ?w)"
    by (simp_all add: accepts_def)
  have gone: "Map_delete 5 (runningBots ?w) = []" "Map_delete 7 (deployedWebsites ?w) = []"
    by (simp_all add: Map_delete_def)
  note claim = stop_refused_write [of ?w 5 7]
  from claim has refused gone
  have "fst (stopBot 5 ?w) = False" "runningBots (snd (stopBot 5 ?w)) = []"
       "fst (undeployWebsite 7 ?w) = False" "deployedWebsites (snd (undeployWebsite 7 ?w)) = []"
    by presburger+
  with has refused show ?thesis
    by (intro conjI)
qed

subsection \<open>Restarting\<close>

lemma sleep_runningBots: "runningBots (sleep ms w) = runningBots w"
  by (simp add: sleep_def)

lemma stopBot_clock: "clock (snd (stopBot botId w)) = clock w"
  by (cases "Map_has (runningBots w) botId"; cases "accepts (bots_faults w)")
     (simp_all add: stopBot_absent stopBot_accepted stopBot_refused)

lemma Map_get_append_new: "\<not> Map_has m k \<Longrightarrow> Map_get (m @ [(k, v)]) k = Some v"
  by (simp add: Map_has_def Map_get_def map_add_def)

lemma restartBot_handle:
  "Map_get (runningBots (snd (restartBot botId botPath config w))) botId =
     Some (new_bot_process botId (sleep 2000 (snd (stopBot botId w))))"
proof -
  let ?w2 = "sleep 2000 (snd (stopBot botId w))"
  have absent: "\<not> Map_has (runningBots ?w2) botId"
    by (simp add: sleep_def stopBot_runningBots Map_has_delete)
  then show ?thesis
    by (simp add: restartBot_def startBot_runningBots Map_get_append_new)
qed

text \<open>
  Claim C7. A restart is the stop, then a wait of 2000 milliseconds, then the start in
  the state so reached, and its result is the result of that start. The start is made
  whatever the stop returned: after every restart the map holds for the id the handle
  that this start built, with a start time 2000 milliseconds after the call. When there
  was no handle to stop, the stop returns \<^verbatim>\<open>false\<close> and leaves the state alone, and
  the restart is the start after the wait.
\<close>

theorem restart_stop_wait_start:
  "restartBot botId botPath config w
     = startBot botId botPath config (sleep 2000 (snd (stopBot botId w))) \<and>
   clock (sleep 2000 (snd (stopBot botId w))) = clock w + 2000 \<and>
   (\<exists>h. Map_get (runningBots (snd (restartBot botId botPath config w))) botId = Some h \<and>
        startTime h = clock w + 2000) \<and>
   (\<not> Map_has (runningBots w) botId \<longrightarrow>
      fst (stopBot botId w) = False \<and>
      restartBot botId botPath config w = startBot botId botPath config (sleep 2000 w) \<and>
      runningBots (snd (restartBot botId botPath config w))
        = runningBots w @ [(botId, new_bot_process botId (sleep 2000 w))])"
proof -
  have time: "clock (sleep 2000 (snd (stopBot botId w))) = clock w + 2000"
    by (simp add: sleep_def stopBot_clock)
  have "startTime (new_bot_process botId (sleep 2000 (snd (stopBot botId w)))) = clock w + 2000"
    by (simp add: new_bot_process_def time)
  with restartBot_handle [of botId botPath config w]
  have handle: "\<exists>h. Map_get (runningBots (snd (restartBot botId botPath config w))) botId = Some h \<and>
        startTime h = clock w + 2000"
    by blast
  have shape: "restartBot botId botPath config w
     = startBot botId botPath config (sleep 2000 (snd (stopBot botId w)))"
    by (simp add: restartBot_def)
  have n1: "fst (stopBot botId w) = False" if "\<not> Map_has (runningBots w) botId"
    using that by (simp add: stopBot_absent)
  have n2: "restartBot botId botPath config w = startBot botId botPath config (sleep 2000 w)"
    if "\<not> Map_has (runningBots w) botId"
    using that by (simp add: restartBot_def stopBot_absent)
  have n3: "runningBots (snd (restartBot botId botPath config w))
        = runningBots w @ [(botId, new_bot_process botId (sleep 2000 w))]"
    if "\<not> Map_has (runningBots w) botId"
    using that by (simp add: n2 startBot_runningBots sleep_runningBots)
  show ?thesis
    by (intro conjI impI shape time handle n1 n2 n3) assumption+
qed

text \<open>The theorem at an id without a handle: the stop finds nothing, the start still runs.\<close>

theorem restart_stop_wait_start_witness:
  "\<not> Map_has (runningBots idle_worker) 5 \<and>
   fst (stopBot 5 idle_worker) = False \<and>
   restartBot 5 [] EmptyObject idle_worker
     = (Inr True, idle_worker\<lparr>clock := 2000,
          runningBots := [(5, \<lparr>bp_id = 5, startTime = 2000, bp_status = ''running'', pid = 5000\<rparr>)]\<rparr>)"
proof -
  have absent: "\<not> Map_has (runningBots idle_worker) 5"
    by (simp add: idle_worker_def Map_has_def)
  have start: "startBot 5 [] EmptyObject (sleep 2000 idle_worker)
     = (Inr True, idle_worker\<lparr>clock := 2000,
          runningBots := [(5, \<lparr>bp_id = 5, startTime = 2000, bp_status = ''running'', pid = 5000\<rparr>)]\<rparr>)"
    by (simp add: startBot_def sleep_def idle_worker_def Map_has_def Math_random_def
          updateBotStatus_def accepts_def)
  from restart_stop_wait_start [of 5 "[]" EmptyObject idle_worker] absent
  have "fst (stopBot 5 idle_worker) = False"
       "restartBot 5 [] EmptyObject idle_worker = startBot 5 [] EmptyObject (sleep 2000 idle_worker)"
    by blast+
  with absent start show ?thesis
    by simp
qed

subsection \<open>A start whose status write is refused\<close>

text \<open>
  Claim C3. The claim asks that a start whose status write fails leaves the map as it was.
  The code puts the handle into the map before it writes the status and has nothing that
  takes it out again: at a first start of bot 1, the write of \<^verbatim>\<open>running\<close> refused,
  \<^verbatim>\<open>startBot\<close> returns \<^verbatim>\<open>false\<close> and the row is marked \<^verbatim>\<open>error\<close>, yet the
  map holds a handle for bot 1 whose own status says \<^verbatim>\<open>running\<close>. The same for
  \<^verbatim>\<open>deployWebsite\<close> and website 1.
\<close>

theorem start_refused_write_keeps_handle:
  "startBot 1 ''uploads/bot.zip'' (Column None)
     (idle_worker\<lparr>bots := [(1, a_bot_row ''stopped'')], bots_faults := [True]\<rparr>)
   = (Inr False,
      idle_worker\<lparr>bots := [(1, a_bot_row ''error'')],
        runningBots := [(1, \<lparr>bp_id = 1, startTime = 0, bp_status = ''running'', pid = 5000\<rparr>)]\<rparr>) \<and>
   deployWebsite 1 ''uploads/site.zip'' None
     (idle_worker\<lparr>websites := [(1, a_website_row ''inactive'')], websites_faults := [True]\<rparr>)
   = (Inr None,
      idle_worker\<lparr>websites := [(1, a_website_row ''error'')],
        deployedWebsites := [(1, \<lparr>dep_id = 1, dep_domain = ''1.localhost'', deployTime = 0,
           dep_status = ''active'', dep_url = ''https://1.localhost''\<rparr>)]\<rparr>)"
  by (simp add: startBot_def deployWebsite_def idle_worker_def Map_has_def Math_random_def
        updateBotStatus_def updateWebsiteStatus_def accepts_def set_bot_status_def
        set_website_status_def a_bot_row_def a_website_row_def domain_or_default_def
        String_of_def decimal.simps)

subsection \<open>The deployment status check\<close>

lemma Map_has_append: "Map_has (m @ n) k = (Map_has m k \<or> Map_has n k)"
  by (auto simp: Map_has_iff_keys)

lemma startBot_frame:
  "deployedWebsites (snd (startBot botId botPath config w)) = deployedWebsites w"
  "websites (snd (startBot botId botPath config w)) = websites w"
  "websites_faults (snd (startBot botId botPath config w)) = websites_faults w"
  "clock (snd (startBot botId botPath config w)) = clock w"
  "exit_code (snd (startBot botId botPath config w)) = exit_code w"
  by (cases "Map_has (runningBots w) botId"; cases "accepts (bots_faults w)";
      cases "accepts (tl (bots_faults w))";
      simp add: startBot_present startBot_accepted startBot_refused_once
        startBot_refused_twice with_bot_def)+

lemma deployWebsite_frame:
  "runningBots (snd (deployWebsite websiteId websitePath domain w)) = runningBots w"
  "bots (snd (deployWebsite websiteId websitePath domain w)) = bots w"
  "bots_faults (snd (deployWebsite websiteId websitePath domain w)) = bots_faults w"
  "clock (snd (deployWebsite websiteId websitePath domain w)) = clock w"
  "exit_code (snd (deployWebsite websiteId websitePath domain w)) = exit_code w"
  by (cases "Map_has (deployedWebsites w) websiteId"; cases "accepts (websites_faults w)";
      cases "accepts (tl (websites_faults w))";
      simp add: deployWebsite_present deployWebsite_accepted deployWebsite_refused_once
        deployWebsite_refused_twice)+

lemma start_missing_bots_step:
  "start_missing_bots (b # rest) w =
     (if Map_has (runningBots w) (fst b) then start_missing_bots rest w
      else case fst (startBot (fst b) (b_file_path (snd b)) (Column (b_config (snd b))) w) of
             Inr started \<Rightarrow>
               start_missing_bots rest
                 (snd (startBot (fst b) (b_file_path (snd b)) (Column (b_config (snd b))) w))
           | Inl error \<Rightarrow>
               (Inl error, snd (startBot (fst b) (b_file_path (snd b)) (Column (b_config (snd b))) w)))"
  by (simp split: prod.splits sum.splits)

lemma deploy_missing_websites_step:
  "deploy_missing_websites (b # rest) w =
     (if Map_has (deployedWebsites w) (fst b) then deploy_missing_websites rest w
      else case fst (deployWebsite (fst b) (s_file_path (snd b)) (s_domain (snd b)) w) of
             Inr deployed \<Rightarrow>
               deploy_missing_websites rest
                 (snd (deployWebsite (fst b) (s_file_path (snd b)) (s_domain (snd b)) w))
           | Inl error \<Rightarrow>
               (Inl error, snd (deployWebsite (fst b) (s_file_path (snd b)) (s_domain (snd b)) w)))"
  by (simp split: prod.splits sum.splits)

lemma start_missing_bots_frame:
  "deployedWebsites (snd (start_missing_bots rows w)) = deployedWebsites w \<and>
   websites (snd (start_missing_bots rows w)) = websites w \<and>
   websites_faults (snd (start_missing_bots rows w)) = websites_faults w"
  by (induction rows arbitrary: w)
     (simp_all add: start_missing_bots_step startBot_frame del: start_missing_bots.simps(2)
        split: sum.splits)

lemma deploy_missing_websites_frame:
  "runningBots (snd (deploy_missing_websites rows w)) = runningBots w \<and>
   bots (snd (deploy_missing_websites rows w)) = bots w \<and>
   bots_faults (snd (deploy_missing_websites rows w)) = bots_faults w"
  by (induction rows arbitrary: w)
     (simp_all add: deploy_missing_websites_step deployWebsite_frame
        del: deploy_missing_websites.simps(2) split: sum.splits)

lemma new_deployment_clock:
  "clock w' = clock w \<Longrightarrow> new_deployment websiteId domain w' = new_deployment websiteId domain w"
  by (simp add: new_deployment_def)

lemma start_missing_bots_exit:
  "exit_code (snd (start_missing_bots rows w)) = exit_code w \<and>
   clock (snd (start_missing_bots rows w)) = clock w"
  by (induction rows arbitrary: w)
     (simp_all add: start_missing_bots_step startBot_frame del: start_missing_bots.simps(2)
        split: sum.splits)

lemma deploy_missing_websites_exit:
  "exit_code (snd (deploy_missing_websites rows w)) = exit_code w \<and>
   clock (snd (deploy_missing_websites rows w)) = clock w"
  by (induction rows arbitrary: w)
     (simp_all add: deploy_missing_websites_step deployWebsite_frame
        del: deploy_missing_websites.simps(2) split: sum.splits)

text \<open>
  The sweep only appends handles, and only for rows it was given and found absent; each
  handle is the one the start builds from the row.
\<close>

lemma start_missing_bots_appends:
  "\<exists>added. runningBots (snd (start_missing_bots rows w)) = runningBots w @ added \<and>
     (\<forall>p\<in>set added. \<not> Map_has (runningBots w) (fst p) \<and> fst p \<in> fst ` set rows \<and>
        bp_id (snd p) = fst p \<and> bp_status (snd p) = ''running'' \<and> startTime (snd p) = clock w)"
proof (induction rows arbitrary: w)
  case Nil
  then show ?case by simp
next
  case (Cons b rest)
  let ?start = "startBot (fst b) (b_file_path (snd b)) (Column (b_config (snd b))) w"
  show ?case
  proof (cases "Map_has (runningBots w) (fst b)")
    case True
    with Cons.IH [of w] show ?thesis
      by (auto simp: start_missing_bots_step simp del: start_missing_bots.simps(2))
  next
    case False
    then have reg: "runningBots (snd ?start)
        = runningBots w @ [(fst b, new_bot_process (fst b) w)]"
      by (simp add: startBot_runningBots)
    have new: "bp_id (new_bot_process (fst b) w) = fst b"
      "bp_status (new_bot_process (fst b) w) = ''running''"
      "startTime (new_bot_process (fst b) w) = clock w"
      by (simp_all add: new_bot_process_def)
    show ?thesis
    proof (cases "fst ?start")
      case (Inl error)
      with False reg new show ?thesis
        by (auto simp: start_missing_bots_step simp del: start_missing_bots.simps(2))
    next
      case (Inr started)
      from Cons.IH [of "snd ?start"] obtain added where
        added: "runningBots (snd (start_missing_bots rest (snd ?start)))
                  = runningBots (snd ?start) @ added"
          "\<forall>p\<in>set added. \<not> Map_has (runningBots (snd ?start)) (fst p) \<and> fst p \<in> fst ` set rest \<and>
             bp_id (snd p) = fst p \<and> bp_status (snd p) = ''running'' \<and>
             startTime (snd p) = clock (snd ?start)"
        by blast
      have "runningBots (snd (start_missing_bots (b # rest) w))
              = runningBots w @ ((fst b, new_bot_process (fst b) w) # added)"
        using False Inr added(1) reg
        by (simp add: start_missing_bots_step del: start_missing_bots.simps(2))
      moreover have "\<forall>p\<in>set ((fst b, new_bot_process (fst b) w) # added).
          \<not> Map_has (runningBots w) (fst p) \<and> fst p \<in> fst ` set (b # rest) \<and>
          bp_id (snd p) = fst p \<and> bp_status (snd p) = ''running'' \<and> startTime (snd p) = clock w"
        using False added(2) new by (auto simp: reg Map_has_append startBot_frame)
      ultimately show ?thesis by blast
    qed
  qed
qed

lemma deploy_missing_websites_appends:
  "\<exists>added. deployedWebsites (snd (deploy_missing_websites rows w)) = deployedWebsites w @ added \<and>
     (\<forall>p\<in>set added. \<not> Map_has (deployedWebsites w) (fst p) \<and> fst p \<in> fst ` set rows \<and>
        (\<exists>b\<in>set rows. fst b = fst p \<and> snd p = new_deployment (fst b) (s_domain (snd b)) w))"
proof (induction rows arbitrary: w)
  case Nil
  then show ?case by simp
next
  case (Cons b rest)
  let ?start = "deployWebsite (fst b) (s_file_path (snd b)) (s_domain (snd b)) w"
  show ?case
  proof (cases "Map_has (deployedWebsites w) (fst b)")
    case True
    with Cons.IH [of w] show ?thesis
      by (auto simp: deploy_missing_websites_step simp del: deploy_missing_websites.simps(2))
  next
    case False
    then have reg: "deployedWebsites (snd ?start)
        = deployedWebsites w @ [(fst b, new_deployment (fst b) (s_domain (snd b)) w)]"
      by (simp add: deployWebsite_deployedWebsites)
    show ?thesis
    proof (cases "fst ?start")
      case (Inl error)
      with False reg show ?thesis
        by (auto simp: deploy_missing_websites_step simp del: deploy_missing_websites.simps(2))
    next
      case (Inr deployed)
      have same: "new_deployment i d (snd ?start) = new_deployment i d w" for i d
        by (rule new_deployment_clock) (simp add: deployWebsite_frame)
      from Cons.IH [of "snd ?start"] obtain added where
        added: "deployedWebsites (snd (deploy_missing_websites rest (snd ?start)))
                  = deployedWebsites (snd ?start) @ added"
          "\<forall>p\<in>set added. \<not> Map_has (deployedWebsites (snd ?start)) (fst p) \<and>
             fst p \<in> fst ` set rest \<and>
             (\<exists>b\<in>set rest. fst b = fst p \<and> snd p = new_deployment (fst b) (s_domain (snd b)) w)"
        unfolding same by blast
      have "deployedWebsites (snd (deploy_missing_websites (b # rest) w))
              = deployedWebsites w @ ((fst b, new_deployment (fst b) (s_domain (snd b)) w) # added)"
        using False Inr added(1) reg
        by (simp add: deploy_missing_websites_step del: deploy_missing_websites.simps(2))
      moreover have "\<forall>p\<in>set ((fst b, new_deployment (fst b) (s_domain (snd b)) w) # added).
          \<not> Map_has (deployedWebsites w) (fst p) \<and> fst p \<in> fst ` set (b # rest) \<and>
          (\<exists>b'\<in>set (b # rest). fst b' = fst p \<and> snd p = new_deployment (fst b') (s_domain (snd b')) w)"
        using False added(2) by (auto simp: reg Map_has_append)
      ultimately show ?thesis by blast
    qed
  qed
qed

text \<open>A sweep that ran to its end has left a handle for every row it was given.\<close>

lemma start_missing_bots_complete:
  "fst (start_missing_bots rows w) = Inr () \<Longrightarrow>
   \<forall>p\<in>set rows. Map_has (runningBots (snd (start_missing_bots rows w))) (fst p)"
proof (induction rows arbitrary: w)
  case Nil
  then show ?case by simp
next
  case (Cons b rest)
  let ?start = "startBot (fst b) (b_file_path (snd b)) (Column (b_config (snd b))) w"
  let ?next = "if Map_has (runningBots w) (fst b) then w else snd ?start"
  from Cons.prems have eq: "start_missing_bots (b # rest) w = start_missing_bots rest ?next"
    by (auto simp: start_missing_bots_step simp del: start_missing_bots.simps(2)
          split: sum.splits if_splits)
  with Cons.prems have "fst (start_missing_bots rest ?next) = Inr ()"
    by simp
  from Cons.IH [OF this]
  have rest: "\<forall>p\<in>set rest. Map_has (runningBots (snd (start_missing_bots rest ?next))) (fst p)" .
  have "Map_has (runningBots ?next) (fst b)"
    by (simp add: startBot_runningBots Map_has_append_new)
  moreover from start_missing_bots_appends [of rest ?next]
  obtain added where "runningBots (snd (start_missing_bots rest ?next)) = runningBots ?next @ added"
    by blast
  ultimately have "Map_has (runningBots (snd (start_missing_bots rest ?next))) (fst b)"
    by (simp add: Map_has_append)
  with rest show ?case unfolding eq by simp
qed

lemma deploy_missing_websites_complete:
  "fst (deploy_missing_websites rows w) = Inr () \<Longrightarrow>
   \<forall>p\<in>set rows. Map_has (deployedWebsites (snd (deploy_missing_websites rows w))) (fst p)"
proof (induction rows arbitrary: w)
  case Nil
  then show ?case by simp
next
  case (Cons b rest)
  let ?start = "deployWebsite (fst b) (s_file_path (snd b)) (s_domain (snd b)) w"
  let ?next = "if Map_has (deployedWebsites w) (fst b) then w else snd ?start"
  from Cons.prems have eq: "deploy_missing_websites (b # rest) w = deploy_missing_websites rest ?next"
    by (auto simp: deploy_missing_websites_step simp del: deploy_missing_websites.simps(2)
          split: sum.splits if_splits)
  with Cons.prems have "fst (deploy_missing_websites rest ?next) = Inr ()"
    by simp
  from Cons.IH [OF this]
  have rest: "\<forall>p\<in>set rest. Map_has (deployedWebsites (snd (deploy_missing_websites rest ?next))) (fst p)" .
  have "Map_has (deployedWebsites ?next) (fst b)"
    by (simp add: deployWebsite_deployedWebsites Map_has_append_new)
  moreover from deploy_missing_websites_appends [of rest ?next]
  obtain added where
    "deployedWebsites (snd (deploy_missing_websites rest ?next)) = deployedWebsites ?next @ added"
    by blast
  ultimately have "Map_has (deployedWebsites (snd (deploy_missing_websites rest ?next))) (fst b)"
    by (simp add: Map_has_append)
  with rest show ?case unfolding eq by simp
qed

text \<open>With a store that refuses nothing, the sweep runs to its end.\<close>

lemma start_missing_bots_healthy:
  "bots_faults w = [] \<Longrightarrow> fst (start_missing_bots rows w) = Inr ()"
proof (induction rows arbitrary: w)
  case Nil
  then show ?case by simp
next
  case (Cons b rest)
  then have ok: "accepts (bots_faults w)" by (simp add: accepts_def)
  show ?case
  proof (cases "Map_has (runningBots w) (fst b)")
    case True
    with Cons show ?thesis by simp
  next
    case False
    from Cons.prems have "bots_faults (snd (startBot (fst b) (b_file_path (snd b))
                                (Column (b_config (snd b))) w)) = []"
      by (simp add: startBot_accepted [OF False ok] with_bot_def)
    from Cons.IH [OF this] False ok show ?thesis
      by (simp add: startBot_accepted)
  qed
qed

lemma deploy_missing_websites_healthy:
  "websites_faults w = [] \<Longrightarrow> fst (deploy_missing_websites rows w) = Inr ()"
proof (induction rows arbitrary: w)
  case Nil
  then show ?case by simp
next
  case (Cons b rest)
  then have ok: "accepts (websites_faults w)" by (simp add: accepts_def)
  show ?case
  proof (cases "Map_has (deployedWebsites w) (fst b)")
    case True
    with Cons show ?thesis by simp
  next
    case False
    from Cons.prems have "websites_faults (snd (deployWebsite (fst b) (s_file_path (snd b))
                                (s_domain (snd b)) w)) = []"
      by (simp add: deployWebsite_accepted [OF False ok])
    from Cons.IH [OF this] False ok show ?thesis
      by (simp add: deployWebsite_accepted)
  qed
qed

lemma check_running_bots_cases:
  "check_running_bots w =
     (if accepts (bots_faults w)
      then start_missing_bots (filter (\<lambda>p. b_status (snd p) = Some ''running'') (bots w))
             (w\<lparr>bots_faults := tl (bots_faults w)\<rparr>)
      else (Inr (), w\<lparr>bots_faults := tl (bots_faults w)\<rparr>))"
  by (simp add: check_running_bots_def select_bots_def)

lemma check_active_websites_cases:
  "check_active_websites w =
     (if accepts (websites_faults w)
      then deploy_missing_websites (filter (\<lambda>p. s_status (snd p) = Some ''active'') (websites w))
             (w\<lparr>websites_faults := tl (websites_faults w)\<rparr>)
      else (Inr (), w\<lparr>websites_faults := tl (websites_faults w)\<rparr>))"
  by (simp add: check_active_websites_def select_websites_def)

lemma check_running_bots_frame:
  "deployedWebsites (snd (check_running_bots w)) = deployedWebsites w"
  "websites (snd (check_running_bots w)) = websites w"
  "websites_faults (snd (check_running_bots w)) = websites_faults w"
  by (simp_all add: check_running_bots_cases start_missing_bots_frame)

lemma check_active_websites_frame:
  "runningBots (snd (check_active_websites w)) = runningBots w"
  "bots (snd (check_active_websites w)) = bots w"
  "bots_faults (snd (check_active_websites w)) = bots_faults w"
  by (simp_all add: check_active_websites_cases deploy_missing_websites_frame)

lemma deployment_status_check_parts:
  "fst (fst (deployment_status_check w)) = fst (check_running_bots w)"
  "runningBots (snd (deployment_status_check w)) = runningBots (snd (check_running_bots w))"
  "snd (fst (deployment_status_check w)) = fst (check_active_websites (snd (check_running_bots w)))"
  "deployedWebsites (snd (deployment_status_check w))
     = deployedWebsites (snd (check_active_websites (snd (check_running_bots w))))"
  by (simp_all add: deployment_status_check_def check_active_websites_frame split_beta)

lemma check_running_bots_appends:
  "\<exists>added. runningBots (snd (check_running_bots w)) = runningBots w @ added \<and>
     (\<forall>p\<in>set added. \<not> Map_has (runningBots w) (fst p) \<and>
        bp_id (snd p) = fst p \<and> bp_status (snd p) = ''running'' \<and> startTime (snd p) = clock w \<and>
        (\<exists>row. (fst p, row) \<in> set (bots w) \<and> b_status row = Some ''running''))"
proof (cases "accepts (bots_faults w)")
  case True
  let ?rows = "filter (\<lambda>p. b_status (snd p) = Some ''running'') (bots w)"
  from start_missing_bots_appends [of ?rows "w\<lparr>bots_faults := tl (bots_faults w)\<rparr>"]
  obtain added where
    added: "runningBots (snd (start_missing_bots ?rows (w\<lparr>bots_faults := tl (bots_faults w)\<rparr>)))
              = runningBots w @ added"
      "\<forall>p\<in>set added. \<not> Map_has (runningBots w) (fst p) \<and> fst p \<in> fst ` set ?rows \<and>
         bp_id (snd p) = fst p \<and> bp_status (snd p) = ''running'' \<and> startTime (snd p) = clock w"
    by auto
  from added(2) have "\<forall>p\<in>set added. \<not> Map_has (runningBots w) (fst p) \<and>
        bp_id (snd p) = fst p \<and> bp_status (snd p) = ''running'' \<and> startTime (snd p) = clock w \<and>
        (\<exists>row. (fst p, row) \<in> set (bots w) \<and> b_status row = Some ''running'')"
    by force
  with added(1) True show ?thesis
    by (auto simp: check_running_bots_cases)
next
  case False
  then show ?thesis by (simp add: check_running_bots_cases)
qed

lemma check_active_websites_appends:
  "\<exists>added. deployedWebsites (snd (check_active_websites w)) = deployedWebsites w @ added \<and>
     (\<forall>p\<in>set added. \<not> Map_has (deployedWebsites w) (fst p) \<and>
        (\<exists>row. (fst p, row) \<in> set (websites w) \<and> s_status row = Some ''active'' \<and>
           snd p = new_deployment (fst p) (s_domain row) w))"
proof (cases "accepts (websites_faults w)")
  case True
  let ?rows = "filter (\<lambda>p. s_status (snd p) = Some ''active'') (websites w)"
  let ?w0 = "w\<lparr>websites_faults := tl (websites_faults w)\<rparr>"
  have same: "new_deployment i d ?w0 = new_deployment i d w" for i d
    by (rule new_deployment_clock) simp
  from deploy_missing_websites_appends [of ?rows ?w0]
  obtain added where
    added: "deployedWebsites (snd (deploy_missing_websites ?rows ?w0)) = deployedWebsites w @ added"
      "\<forall>p\<in>set added. \<not> Map_has (deployedWebsites w) (fst p) \<and> fst p \<in> fst ` set ?rows \<and>
         (\<exists>b\<in>set ?rows. fst b = fst p \<and> snd p = new_deployment (fst b) (s_domain (snd b)) w)"
    unfolding same by auto
  from added(2) have "\<forall>p\<in>set added. \<not> Map_has (deployedWebsites w) (fst p) \<and>
        (\<exists>row. (fst p, row) \<in> set (websites w) \<and> s_status row = Some ''active'' \<and>
           snd p = new_deployment (fst p) (s_domain row) w)"
    by force
  with added(1) True show ?thesis
    by (auto simp: check_active_websites_cases)
next
  case False
  then show ?thesis by (simp add: check_active_websites_cases)
qed

lemma check_running_bots_complete:
  assumes "accepts (bots_faults w)" and "fst (check_running_bots w) = Inr ()"
  shows "\<forall>p\<in>set (bots w). b_status (snd p) = Some ''running'' \<longrightarrow>
           Map_has (runningBots (snd (check_running_bots w))) (fst p)"
  using assms start_missing_bots_complete
          [of "filter (\<lambda>p. b_status (snd p) = Some ''running'') (bots w)"
              "w\<lparr>bots_faults := tl (bots_faults w)\<rparr>"]
  by (simp add: check_running_bots_cases) force

lemma check_active_websites_complete:
  assumes "accepts (websites_faults w)" and "fst (check_active_websites w) = Inr ()"
  shows "\<forall>p\<in>set (websites w). s_status (snd p) = Some ''active'' \<longrightarrow>
           Map_has (deployedWebsites (snd (check_active_websites w))) (fst p)"
  using assms deploy_missing_websites_complete
          [of "filter (\<lambda>p. s_status (snd p) = Some ''active'') (websites w)"
              "w\<lparr>websites_faults := tl (websites_faults w)\<rparr>"]
  by (simp add: check_active_websites_cases) force

lemma check_running_bots_healthy:
  "bots_faults w = [] \<Longrightarrow> fst (check_running_bots w) = Inr ()"
  by (simp add: check_running_bots_cases start_missing_bots_healthy)

lemma check_active_websites_healthy:
  "websites_faults w = [] \<Longrightarrow> fst (check_active_websites w) = Inr ()"
  by (simp add: check_active_websites_cases deploy_missing_websites_healthy)

text \<open>A sweep that ran to its end is the fold of the starts over the rows.\<close>

lemma start_missing_bots_fold:
  "fst (start_missing_bots rows w) = Inr () \<Longrightarrow>
   snd (start_missing_bots rows w) =
     fold (\<lambda>b w. if Map_has (runningBots w) (fst b) then w
                  else snd (startBot (fst b) (b_file_path (snd b)) (Column (b_config (snd b))) w))
          rows w"
  by (induction rows arbitrary: w)
     (auto simp: start_missing_bots_step simp del: start_missing_bots.simps(2)
        split: sum.splits if_splits)

lemma deploy_missing_websites_fold:
  "fst (deploy_missing_websites rows w) = Inr () \<Longrightarrow>
   snd (deploy_missing_websites rows w) =
     fold (\<lambda>b w. if Map_has (deployedWebsites w) (fst b) then w
                  else snd (deployWebsite (fst b) (s_file_path (snd b)) (s_domain (snd b)) w))
          rows w"
  by (induction rows arbitrary: w)
     (auto simp: deploy_missing_websites_step simp del: deploy_missing_websites.simps(2)
        split: sum.splits if_splits)

lemma spec_reconcile_bots:
  "spec_reconcile status (\<lambda>w. Map_has (runningBots w)) (\<lambda>i p c w. snd (startBot i p c w))
     (map bot_record rows) w =
   fold (\<lambda>b w. if Map_has (runningBots w) (fst b) then w
                else snd (startBot (fst b) (b_file_path (snd b)) (Column (b_config (snd b))) w))
        (filter (\<lambda>p. b_status (snd p) = Some status) rows) w"
  by (simp add: spec_reconcile_def filter_map fold_map comp_def bot_record_def cong del: if_weak_cong)

lemma spec_reconcile_websites:
  "spec_reconcile status (\<lambda>w. Map_has (deployedWebsites w)) (\<lambda>i p d w. snd (deployWebsite i p d w))
     (map website_record rows) w =
   fold (\<lambda>b w. if Map_has (deployedWebsites w) (fst b) then w
                else snd (deployWebsite (fst b) (s_file_path (snd b)) (s_domain (snd b)) w))
        (filter (\<lambda>p. s_status (snd p) = Some status) rows) w"
  by (simp add: spec_reconcile_def filter_map fold_map comp_def website_record_def cong del: if_weak_cong)

lemma check_running_bots_refines:
  "accepts (bots_faults w) \<Longrightarrow> fst (check_running_bots w) = Inr () \<Longrightarrow>
   snd (check_running_bots w) =
     spec_reconcile ''running'' (\<lambda>w. Map_has (runningBots w)) (\<lambda>i p c w. snd (startBot i p c w))
       (map bot_record (bots w)) (w\<lparr>bots_faults := tl (bots_faults w)\<rparr>)"
  by (simp add: check_running_bots_cases spec_reconcile_bots start_missing_bots_fold)

lemma check_active_websites_refines:
  "accepts (websites_faults w) \<Longrightarrow> fst (check_active_websites w) = Inr () \<Longrightarrow>
   snd (check_active_websites w) =
     spec_reconcile ''active'' (\<lambda>w. Map_has (deployedWebsites w))
       (\<lambda>i p d w. snd (deployWebsite i p d w))
       (map website_record (websites w)) (w\<lparr>websites_faults := tl (websites_faults w)\<rparr>)"
  by (simp add: check_active_websites_cases spec_reconcile_websites deploy_missing_websites_fold)

lemma check_running_bots_exit: "exit_code (snd (check_running_bots w)) = exit_code w"
  by (simp add: check_running_bots_cases start_missing_bots_exit)

lemma check_active_websites_exit: "exit_code (snd (check_active_websites w)) = exit_code w"
  by (simp add: check_active_websites_cases deploy_missing_websites_exit)

lemma check_running_bots_refused:
  "\<not> accepts (bots_faults w) \<Longrightarrow>
   check_running_bots w = (Inr (), w\<lparr>bots_faults := tl (bots_faults w)\<rparr>)"
  by (simp add: check_running_bots_cases)

lemma check_active_websites_refused:
  "\<not> accepts (websites_faults w) \<Longrightarrow>
   check_active_websites w = (Inr (), w\<lparr>websites_faults := tl (websites_faults w)\<rparr>)"
  by (simp add: check_active_websites_cases)

text \<open>A tick in which no callback rejects is the one callback after the other.\<close>

lemma deployment_status_check_quiet:
  assumes "fst (fst (deployment_status_check w)) = Inr ()"
    and "snd (fst (deployment_status_check w)) = Inr ()"
  shows "snd (deployment_status_check w) = snd (check_active_websites (snd (check_running_bots w)))"
  using assms by (simp add: deployment_status_check_def split_beta is_rejected_def)

text \<open>
  Claim C4, as amended. One tick of the deployment status check in which no callback
  rejects (as is the case when the store refuses nothing) leaves the process running and
  never stops, removes or replaces a handle: each map after the tick is the map before it
  with handles appended, each appended handle being the one the start builds for an id
  that had no handle and has a row with the active status (\<^verbatim>\<open>running\<close> for bots,
  \<^verbatim>\<open>active\<close> for websites); for a website it carries the domain of that row. Where
  the store answers the query, every row with the active status has a handle afterwards;
  where it refuses the query, nothing is started. With both queries answered the tick is
  the Reconciler of the spec: for each record with the active status whose id has no
  handle, a start with the record's id, its \<^verbatim>\<open>file_path\<close> and its \<^verbatim>\<open>config\<close>
  (bots) or \<^verbatim>\<open>domain\<close> (websites). Of these arguments \<^verbatim>\<open>startBot\<close> uses the id
  only, and \<^verbatim>\<open>deployWebsite\<close> the id and the domain.
\<close>

theorem reconcile_starts_missing:
  "(bots_faults w = [] \<and> websites_faults w = [] \<longrightarrow>
      fst (deployment_status_check w) = (Inr (), Inr ())) \<and>
   (fst (deployment_status_check w) = (Inr (), Inr ()) \<longrightarrow>
      exit_code (snd (deployment_status_check w)) = exit_code w \<and>
      (\<exists>added. runningBots (snd (deployment_status_check w)) = runningBots w @ added \<and>
         (\<forall>p\<in>set added. \<not> Map_has (runningBots w) (fst p) \<and>
            bp_id (snd p) = fst p \<and> bp_status (snd p) = ''running'' \<and>
            startTime (snd p) = clock w \<and>
            (\<exists>row. (fst p, row) \<in> set (bots w) \<and> b_status row = Some ''running''))) \<and>
      (\<exists>added. deployedWebsites (snd (deployment_status_check w)) = deployedWebsites w @ added \<and>
         (\<forall>p\<in>set added. \<not> Map_has (deployedWebsites w) (fst p) \<and>
            (\<exists>row. (fst p, row) \<in> set (websites w) \<and> s_status row = Some ''active'' \<and>
               snd p = new_deployment (fst p) (s_domain row) w))) \<and>
      (accepts (bots_faults w) \<longrightarrow>
         (\<forall>p\<in>set (bots w). b_status (snd p) = Some ''running'' \<longrightarrow>
            Map_has (runningBots (snd (deployment_status_check w))) (fst p))) \<and>
      (accepts (websites_faults w) \<longrightarrow>
         (\<forall>p\<in>set (websites w). s_status (snd p) = Some ''active'' \<longrightarrow>
            Map_has (deployedWebsites (snd (deployment_status_check w))) (fst p))) \<and>
      (\<not> accepts (bots_faults w) \<longrightarrow>
         runningBots (snd (deployment_status_check w)) = runningBots w) \<and>
      (\<not> accepts (websites_faults w) \<longrightarrow>
         deployedWebsites (snd (deployment_status_check w)) = deployedWebsites w) \<and>
      (accepts (bots_faults w) \<and> accepts (websites_faults w) \<longrightarrow>
         snd (deployment_status_check w) =
           spec_reconcile ''active'' (\<lambda>w. Map_has (deployedWebsites w))
             (\<lambda>websiteId websitePath domain w. snd (deployWebsite websiteId websitePath domain w))
             (map website_record (websites w))
             ((spec_reconcile ''running'' (\<lambda>w. Map_has (runningBots w))
                 (\<lambda>botId botPath config w. snd (startBot botId botPath config w))
                 (map bot_record (bots w))
                 (w\<lparr>bots_faults := tl (bots_faults w)\<rparr>))
              \<lparr>websites_faults := tl (websites_faults w)\<rparr>)))"
proof (intro conjI impI)
  assume "bots_faults w = [] \<and> websites_faults w = []"
  then show "fst (deployment_status_check w) = (Inr (), Inr ())"
    by (simp add: prod_eq_iff deployment_status_check_parts check_running_bots_healthy
          check_active_websites_healthy check_running_bots_frame)
next
  let ?T = "deployment_status_check w"
  let ?w1 = "snd (check_running_bots w)"
  note frame = check_running_bots_frame [of w]
  assume "fst ?T = (Inr (), Inr ())"
  then have quiet: "fst (fst ?T) = Inr ()" "snd (fst ?T) = Inr ()"
    by simp_all
  then have bots_done: "fst (check_running_bots w) = Inr ()"
    and sites_done: "fst (check_active_websites ?w1) = Inr ()"
    by (simp_all add: deployment_status_check_parts)
  note after = deployment_status_check_quiet [OF quiet]
  show "exit_code (snd ?T) = exit_code w"
    by (simp add: after check_active_websites_exit check_running_bots_exit)
  show "\<exists>added. runningBots (snd ?T) = runningBots w @ added \<and>
         (\<forall>p\<in>set added. \<not> Map_has (runningBots w) (fst p) \<and>
            bp_id (snd p) = fst p \<and> bp_status (snd p) = ''running'' \<and>
            startTime (snd p) = clock w \<and>
            (\<exists>row. (fst p, row) \<in> set (bots w) \<and> b_status row = Some ''running''))"
    using check_running_bots_appends [of w] by (simp add: deployment_status_check_parts)
  have clock1: "clock ?w1 = clock w"
    by (simp add: check_running_bots_cases start_missing_bots_exit)
  have same: "new_deployment i d ?w1 = new_deployment i d w" for i d
    using clock1 by (rule new_deployment_clock)
  show "\<exists>added. deployedWebsites (snd ?T) = deployedWebsites w @ added \<and>
         (\<forall>p\<in>set added. \<not> Map_has (deployedWebsites w) (fst p) \<and>
            (\<exists>row. (fst p, row) \<in> set (websites w) \<and> s_status row = Some ''active'' \<and>
               snd p = new_deployment (fst p) (s_domain row) w))"
    using check_active_websites_appends [of ?w1]
    by (simp add: deployment_status_check_parts frame same)
  show "\<forall>p\<in>set (bots w). b_status (snd p) = Some ''running'' \<longrightarrow>
            Map_has (runningBots (snd ?T)) (fst p)"
    if "accepts (bots_faults w)"
    using check_running_bots_complete [OF that bots_done]
    by (simp add: deployment_status_check_parts)
  show "\<forall>p\<in>set (websites w). s_status (snd p) = Some ''active'' \<longrightarrow>
            Map_has (deployedWebsites (snd ?T)) (fst p)"
    if "accepts (websites_faults w)"
    using check_active_websites_complete [of ?w1] that sites_done
    by (simp add: deployment_status_check_parts frame)
  show "runningBots (snd ?T) = runningBots w" if "\<not> accepts (bots_faults w)"
    using that by (simp add: deployment_status_check_parts check_running_bots_refused)
  show "deployedWebsites (snd ?T) = deployedWebsites w" if "\<not> accepts (websites_faults w)"
    using that
    by (simp add: deployment_status_check_parts check_active_websites_refused frame)
  show "snd ?T =
           spec_reconcile ''active'' (\<lambda>w. Map_has (deployedWebsites w))
             (\<lambda>websiteId websitePath domain w. snd (deployWebsite websiteId websitePath domain w))
             (map website_record (websites w))
             ((spec_reconcile ''running'' (\<lambda>w. Map_has (runningBots w))
                 (\<lambda>botId botPath config w. snd (startBot botId botPath config w))
                 (map bot_record (bots w))
                 (w\<lparr>bots_faults := tl (bots_faults w)\<rparr>))
              \<lparr>websites_faults := tl (websites_faults w)\<rparr>)"
    if both: "accepts (bots_faults w) \<and> accepts (websites_faults w)"
  proof -
    from both have "accepts (websites_faults ?w1)"
      by (simp add: frame)
    from check_active_websites_refines [OF this sites_done]
    have "snd ?T = spec_reconcile ''active'' (\<lambda>w. Map_has (deployedWebsites w))
             (\<lambda>i p d w. snd (deployWebsite i p d w))
             (map website_record (websites w)) (?w1\<lparr>websites_faults := tl (websites_faults w)\<rparr>)"
      by (simp add: after frame)
    also from both have "?w1 = spec_reconcile ''running'' (\<lambda>w. Map_has (runningBots w))
                 (\<lambda>i p c w. snd (startBot i p c w))
                 (map bot_record (bots w)) (w\<lparr>bots_faults := tl (bots_faults w)\<rparr>)"
      using check_running_bots_refines [OF _ bots_done] by simp
    finally show ?thesis .
  qed
qed

text \<open>
  The theorem at the store that holds bot 5 with status \<^verbatim>\<open>running\<close> and website 7
  with status \<^verbatim>\<open>active\<close> and a domain of its own, the maps empty and the store
  refusing nothing: after one tick the map holds a handle for bot 5, and website 7 is
  deployed under its domain.
\<close>

theorem reconcile_starts_missing_witness:
  "bots_faults (idle_worker\<lparr>bots := [(5, a_bot_row ''running'')],
      websites := [(7, (a_website_row ''active'')\<lparr>s_domain := Some ''shop.example.com''\<rparr>)]\<rparr>) = [] \<and>
   websites_faults (idle_worker\<lparr>bots := [(5, a_bot_row ''running'')],
      websites := [(7, (a_website_row ''active'')\<lparr>s_domain := Some ''shop.example.com''\<rparr>)]\<rparr>) = [] \<and>
   accepts (bots_faults (idle_worker\<lparr>bots := [(5, a_bot_row ''running'')],
      websites := [(7, (a_website_row ''active'')\<lparr>s_domain := Some ''shop.example.com''\<rparr>)]\<rparr>)) \<and>
   accepts (websites_faults (idle_worker\<lparr>bots := [(5, a_bot_row ''running'')],
      websites := [(7, (a_website_row ''active'')\<lparr>s_domain := Some ''shop.example.com''\<rparr>)]\<rparr>)) \<and>
   runningBots (idle_worker\<lparr>bots := [(5, a_bot_row ''running'')],
      websites := [(7, (a_website_row ''active'')\<lparr>s_domain := Some ''shop.example.com''\<rparr>)]\<rparr>) = [] \<and>
   fst (deployment_status_check (idle_worker\<lparr>bots := [(5, a_bot_row ''running'')],
      websites := [(7, (a_website_row ''active'')\<lparr>s_domain := Some ''shop.example.com''\<rparr>)]\<rparr>))
     = (Inr (), Inr ()) \<and>
   Map_has (runningBots (snd (deployment_status_check (idle_worker\<lparr>bots := [(5, a_bot_row ''running'')],
      websites := [(7, (a_website_row ''active'')\<lparr>s_domain := Some ''shop.example.com''\<rparr>)]\<rparr>)))) 5 \<and>
   snd (deployment_status_check (idle_worker\<lparr>bots := [(5, a_bot_row ''running'')],
      websites := [(7, (a_website_row ''active'')\<lparr>s_domain := Some ''shop.example.com''\<rparr>)]\<rparr>))
     = idle_worker\<lparr>bots := [(5, a_bot_row ''running'')],
         websites := [(7, (a_website_row ''active'')\<lparr>s_domain := Some ''shop.example.com''\<rparr>)],
         runningBots := [(5, \<lparr>bp_id = 5, startTime = 0, bp_status = ''running'', pid = 5000\<rparr>)],
         deployedWebsites := [(7, \<lparr>dep_id = 7, dep_domain = ''shop.example.com'', deployTime = 0,
            dep_status = ''active'', dep_url = ''https://shop.example.com''\<rparr>)]\<rparr> \<and>
   exit_code (snd (deployment_status_check (idle_worker\<lparr>bots := [(5, a_bot_row ''running'')],
      websites := [(7, (a_website_row ''active'')\<lparr>s_domain := Some ''shop.example.com''\<rparr>)]\<rparr>)))
     = None"
proof -
  let ?w = "idle_worker\<lparr>bots := [(5, a_bot_row ''running'')],
      websites := [(7, (a_website_row ''active'')\<lparr>s_domain := Some ''shop.example.com''\<rparr>)]\<rparr>"
  have healthy: "bots_faults ?w = []" "websites_faults ?w = []"
    by (simp_all add: idle_worker_def)
  have ok: "accepts (bots_faults ?w)" "accepts (websites_faults ?w)"
    by (simp_all add: idle_worker_def accepts_def)
  have empty: "runningBots ?w = []"
    by (simp add: idle_worker_def)
  have row: "(5, a_bot_row ''running'') \<in> set (bots ?w)"
            "b_status (a_bot_row ''running'') = Some ''running''"
    by (simp_all add: a_bot_row_def)
  note claim = reconcile_starts_missing [of ?w]
  from claim healthy have quiet: "fst (deployment_status_check ?w) = (Inr (), Inr ())"
    by blast
  with claim ok have "\<forall>p\<in>set (bots ?w). b_status (snd p) = Some ''running'' \<longrightarrow>
         Map_has (runningBots (snd (deployment_status_check ?w))) (fst p)"
    by blast
  with row have started: "Map_has (runningBots (snd (deployment_status_check ?w))) 5"
    by force
  from claim quiet ok have "snd (deployment_status_check ?w) =
           spec_reconcile ''active'' (\<lambda>w. Map_has (deployedWebsites w))
             (\<lambda>websiteId websitePath domain w. snd (deployWebsite websiteId websitePath domain w))
             (map website_record (websites ?w))
             ((spec_reconcile ''running'' (\<lambda>w. Map_has (runningBots w))
                 (\<lambda>botId botPath config w. snd (startBot botId botPath config w))
                 (map bot_record (bots ?w))
                 (?w\<lparr>bots_faults := tl (bots_faults ?w)\<rparr>))
              \<lparr>websites_faults := tl (websites_faults ?w)\<rparr>)"
    by blast
  also have "\<dots> = idle_worker\<lparr>bots := [(5, a_bot_row ''running'')],
         websites := [(7, (a_website_row ''active'')\<lparr>s_domain := Some ''shop.example.com''\<rparr>)],
         runningBots := [(5, \<lparr>bp_id = 5, startTime = 0, bp_status = ''running'', pid = 5000\<rparr>)],
         deployedWebsites := [(7, \<lparr>dep_id = 7, dep_domain = ''shop.example.com'', deployTime = 0,
            dep_status = ''active'', dep_url = ''https://shop.example.com''\<rparr>)]\<rparr>"
    by (simp add: spec_reconcile_def bot_record_def website_record_def startBot_def
          deployWebsite_def idle_worker_def Map_has_def Math_random_def updateBotStatus_def
          updateWebsiteStatus_def accepts_def set_bot_status_def set_website_status_def
          a_bot_row_def a_website_row_def domain_or_default_def Let_def)
  finally have state: "snd (deployment_status_check ?w) = idle_worker\<lparr>bots := [(5, a_bot_row ''running'')],
         websites := [(7, (a_website_row ''active'')\<lparr>s_domain := Some ''shop.example.com''\<rparr>)],
         runningBots := [(5, \<lparr>bp_id = 5, startTime = 0, bp_status = ''running'', pid = 5000\<rparr>)],
         deployedWebsites := [(7, \<lparr>dep_id = 7, dep_domain = ''shop.example.com'', deployTime = 0,
            dep_status = ''active'', dep_url = ''https://shop.example.com''\<rparr>)]\<rparr>" .
  have run: "deployment_status_check ?w = ((Inr (), Inr ()),
       idle_worker\<lparr>bots := [(5, a_bot_row ''running'')],
         websites := [(7, (a_website_row ''active'')\<lparr>s_domain := Some ''shop.example.com''\<rparr>)],
         runningBots := [(5, \<lparr>bp_id = 5, startTime = 0, bp_status = ''running'', pid = 5000\<rparr>)],
         deployedWebsites := [(7, \<lparr>dep_id = 7, dep_domain = ''shop.example.com'', deployTime = 0,
            dep_status = ''active'', dep_url = ''https://shop.example.com''\<rparr>)]\<rparr>)"
    by (simp add: deployment_status_check_def check_running_bots_def check_active_websites_def
          select_bots_def select_websites_def startBot_def deployWebsite_def idle_worker_def
          Map_has_def Math_random_def updateBotStatus_def updateWebsiteStatus_def accepts_def
          set_bot_status_def set_website_status_def a_bot_row_def a_website_row_def
          domain_or_default_def is_rejected_def Let_def)
  then have alive: "exit_code (snd (deployment_status_check ?w)) = None"
    by (simp add: idle_worker_def)
  show ?thesis
    by (intro conjI healthy ok empty quiet started state alive)
qed

text \<open>
  Claim C4 as stated fails: it has every reconciliation cycle start the records that are
  active and absent, and the store \<open>{id 5, running}\<close> with an empty map end with a handle
  for 5. When the store refuses the query, the callback logs the error and returns: the
  tick ends with no promise rejected and the process running, the row of bot 5 still says
  \<^verbatim>\<open>running\<close>, and the map holds no handle for 5.
\<close>

theorem reconcile_query_refused:
  "stored_bot_status (idle_worker\<lparr>bots := [(5, a_bot_row ''running'')], bots_faults := [True]\<rparr>) 5
     = Some ''running'' \<and>
   runningBots (idle_worker\<lparr>bots := [(5, a_bot_row ''running'')], bots_faults := [True]\<rparr>) = [] \<and>
   fst (deployment_status_check
          (idle_worker\<lparr>bots := [(5, a_bot_row ''running'')], bots_faults := [True]\<rparr>))
     = (Inr (), Inr ()) \<and>
   exit_code (snd (deployment_status_check
          (idle_worker\<lparr>bots := [(5, a_bot_row ''running'')], bots_faults := [True]\<rparr>))) = None \<and>
   stored_bot_status (snd (deployment_status_check
          (idle_worker\<lparr>bots := [(5, a_bot_row ''running'')], bots_faults := [True]\<rparr>))) 5
     = Some ''running'' \<and>
   \<not> Map_has (runningBots (snd (deployment_status_check
          (idle_worker\<lparr>bots := [(5, a_bot_row ''running'')], bots_faults := [True]\<rparr>)))) 5"
  by (simp add: deployment_status_check_def check_running_bots_def check_active_websites_def
        select_bots_def select_websites_def idle_worker_def Map_has_def accepts_def
        is_rejected_def stored_bot_status_def a_bot_row_def)

subsection \<open>One failing entry in a sweep\<close>

text \<open>
  The health check keeps going after an entry whose restart rejects: the \<^verbatim>\<open>catch\<close>
  block of that entry stops the bot, and the loop goes on to the next entry. Here the
  restart of bot 1 rejects (both status writes of its start are refused), and bot 2 is
  still checked and restarted.
\<close>

lemma healthCheck_goes_on_after_rejection:
  "healthCheck (idle_worker\<lparr>
       runningBots := [(1, new_bot_process 1 idle_worker), (2, new_bot_process 2 idle_worker)],
       bots := [(1, a_bot_row ''running''), (2, a_bot_row ''running'')],
       rands := [0, 1 / 2, 0], bots_faults := [False, True, True]\<rparr>)
   = idle_worker\<lparr>
       runningBots := [(2, \<lparr>bp_id = 2, startTime = 4000, bp_status = ''running'', pid = 5000\<rparr>)],
       bots := [(1, (a_bot_row ''stopped'')\<lparr>b_updated_at := 2000\<rparr>),
                (2, (a_bot_row ''running'')\<lparr>b_updated_at := 4000\<rparr>)],
       clock := 4000\<rparr>"
  by (simp add: healthCheck_def getRunningBots_def Map_values_def restartBot_def stopBot_def
        startBot_def sleep_def idle_worker_def new_bot_process_def Map_get_def Map_has_def
        Map_delete_def Math_random_def updateBotStatus_def accepts_def set_bot_status_def
        a_bot_row_def)

text \<open>
  Claim C8. The claim asks that a failure to start one record never ends the sweep. The
  loops of the deployment status check have no \<^verbatim>\<open>try\<close> around the awaited start,
  unlike the loop of the health check. With the rows of bots 1 and 2 both
  \<^verbatim>\<open>running\<close>, the maps empty, the query answered and the two status writes of the
  start of bot 1 refused, \<^verbatim>\<open>startBot\<close> rejects from inside its own \<^verbatim>\<open>catch\<close>
  block; the callback's promise rejects with nobody to handle it, and the loop never
  reaches bot 2, which has no handle after the tick although the store would have
  accepted its write. The unhandled rejection ends the process with exit code 1.
\<close>

theorem reconcile_sweep_cut_short:
  "deployment_status_check
     (idle_worker\<lparr>bots := [(1, a_bot_row ''running''), (2, a_bot_row ''running'')],
        bots_faults := [False, True, True]\<rparr>)
   = ((Inl SQLITE_ERROR, Inr ()),
      idle_worker\<lparr>bots := [(1, a_bot_row ''running''), (2, a_bot_row ''running'')],
        runningBots := [(1, \<lparr>bp_id = 1, startTime = 0, bp_status = ''running'', pid = 5000\<rparr>)],
        exit_code := Some 1\<rparr>) \<and>
   \<not> Map_has (runningBots (snd (deployment_status_check
          (idle_worker\<lparr>bots := [(1, a_bot_row ''running''), (2, a_bot_row ''running'')],
             bots_faults := [False, True, True]\<rparr>)))) 2 \<and>
   accepts (bots_faults (snd (deployment_status_check
          (idle_worker\<lparr>bots := [(1, a_bot_row ''running''), (2, a_bot_row ''running'')],
             bots_faults := [False, True, True]\<rparr>))))"
proof -
  have run: "deployment_status_check
     (idle_worker\<lparr>bots := [(1, a_bot_row ''running''), (2, a_bot_row ''running'')],
        bots_faults := [False, True, True]\<rparr>)
   = ((Inl SQLITE_ERROR, Inr ()),
      idle_worker\<lparr>bots := [(1, a_bot_row ''running''), (2, a_bot_row ''running'')],
        runningBots := [(1, \<lparr>bp_id = 1, startTime = 0, bp_status = ''running'', pid = 5000\<rparr>)],
        exit_code := Some 1\<rparr>)"
    by (simp add: deployment_status_check_def check_running_bots_def check_active_websites_def
          select_bots_def select_websites_def startBot_def idle_worker_def Map_has_def
          Math_random_def updateBotStatus_def accepts_def a_bot_row_def is_rejected_def)
  show ?thesis
    unfolding run by (simp add: Map_has_def idle_worker_def accepts_def)
qed

subsection \<open>The map of running bots stays well formed\<close>

text \<open>
  \<open>registry_ok\<close> holds of the empty map the worker starts with and is kept by every
  operation that writes \<^verbatim>\<open>runningBots\<close>, so it holds whenever a signal arrives.
\<close>

lemma registry_ok_empty: "registry_ok (runningBots idle_worker)"
  by (simp add: registry_ok_def Map_wf_def idle_worker_def)

lemma startBot_registry_ok:
  "registry_ok (runningBots w) \<Longrightarrow> registry_ok (runningBots (snd (startBot botId botPath config w)))"
  by (simp add: startBot_runningBots registry_ok_def Map_wf_append_new new_bot_process_def)

lemma stopBot_registry_ok:
  "registry_ok (runningBots w) \<Longrightarrow> registry_ok (runningBots (snd (stopBot botId w)))"
  by (simp add: stopBot_runningBots registry_ok_def Map_wf_delete)
     (simp add: Map_delete_def list_all_iff)

lemma restartBot_registry_ok:
  "registry_ok (runningBots w) \<Longrightarrow> registry_ok (runningBots (snd (restartBot botId botPath config w)))"
  by (simp add: restartBot_def startBot_registry_ok stopBot_registry_ok sleep_runningBots)

lemma start_missing_bots_registry_ok:
  "registry_ok (runningBots w) \<Longrightarrow> registry_ok (runningBots (snd (start_missing_bots rows w)))"
  by (induction rows arbitrary: w)
     (simp_all add: start_missing_bots_step startBot_registry_ok
        del: start_missing_bots.simps(2) split: sum.splits)

lemma Math_random_runningBots: "runningBots (snd (Math_random w)) = runningBots w"
  by (simp add: Math_random_def)

lemma healthCheck_loop_registry_ok:
  "registry_ok (runningBots w) \<Longrightarrow> registry_ok (runningBots (healthCheck_loop hs w))"
proof (induction hs arbitrary: w)
  case Nil
  then show ?case by simp
next
  case (Cons b rest)
  let ?w1 = "snd (Math_random w)"
  let ?r = "restartBot (bp_id b) [] EmptyObject ?w1"
  from Cons.prems have ok1: "registry_ok (runningBots ?w1)"
    by (simp add: Math_random_runningBots)
  then have ok2: "registry_ok (runningBots (snd ?r))"
    by (rule restartBot_registry_ok)
  then have ok3: "registry_ok (runningBots (snd (stopBot (bp_id b) (snd ?r))))"
    by (rule stopBot_registry_ok)
  have "healthCheck_loop (b # rest) w =
      (if fst (Math_random w) < 1 / 100
       then (case fst ?r of
               Inr restarted \<Rightarrow> healthCheck_loop rest (snd ?r)
             | Inl error \<Rightarrow> healthCheck_loop rest (snd (stopBot (bp_id b) (snd ?r))))
       else healthCheck_loop rest ?w1)"
    by (simp split: prod.splits sum.splits)
  with Cons.IH [OF ok1] Cons.IH [OF ok2] Cons.IH [OF ok3] show ?case
    by (simp del: healthCheck_loop.simps(2) split: sum.splits)
qed

lemma healthCheck_registry_ok:
  "registry_ok (runningBots w) \<Longrightarrow> registry_ok (runningBots (healthCheck w))"
  by (simp add: healthCheck_def healthCheck_loop_registry_ok)

lemma deployment_status_check_registry_ok:
  "registry_ok (runningBots w) \<Longrightarrow> registry_ok (runningBots (snd (deployment_status_check w)))"
  by (simp add: deployment_status_check_parts check_running_bots_cases
        start_missing_bots_registry_ok)

subsection \<open>Shutdown\<close>

lemma stopBot_frame:
  "deployedWebsites (snd (stopBot botId w)) = deployedWebsites w"
  "websites (snd (stopBot botId w)) = websites w"
  "websites_faults (snd (stopBot botId w)) = websites_faults w"
  "exit_code (snd (stopBot botId w)) = exit_code w"
  by (cases "Map_has (runningBots w) botId"; cases "accepts (bots_faults w)";
      simp add: stopBot_absent stopBot_accepted stopBot_refused)+

lemma stop_each_step:
  "stop_each (b # rest) w =
     (fst (stopBot (bp_id b) w) # fst (stop_each rest (snd (stopBot (bp_id b) w))),
      snd (stop_each rest (snd (stopBot (bp_id b) w))))"
  by (simp add: split_beta)

lemma stop_each_frame:
  "deployedWebsites (snd (stop_each hs w)) = deployedWebsites w \<and>
   websites (snd (stop_each hs w)) = websites w \<and>
   websites_faults (snd (stop_each hs w)) = websites_faults w \<and>
   exit_code (snd (stop_each hs w)) = exit_code w"
  by (induction hs arbitrary: w)
     (simp_all add: stop_each_step stopBot_frame del: stop_each.simps(2))

lemma stop_each_length: "length (fst (stop_each hs w)) = length hs"
  by (induction hs arbitrary: w) (simp_all add: stop_each_step del: stop_each.simps(2))

lemma stop_each_runningBots:
  "runningBots (snd (stop_each hs w)) = filter (\<lambda>p. fst p \<notin> bp_id ` set hs) (runningBots w)"
proof (induction hs arbitrary: w)
  case Nil
  then show ?case by simp
next
  case (Cons b rest)
  have "filter (\<lambda>p. fst p \<notin> bp_id ` set rest) (Map_delete (bp_id b) (runningBots w))
      = filter (\<lambda>p. fst p \<notin> bp_id ` set (b # rest)) (runningBots w)"
    by (auto simp: Map_delete_def intro: filter_cong)
  with Cons.IH [of "snd (stopBot (bp_id b) w)"] show ?case
    by (simp add: stop_each_step stopBot_runningBots del: stop_each.simps(2))
qed

lemma stop_each_drains:
  assumes "registry_ok (runningBots w)"
  shows "runningBots (snd (stop_each (getRunningBots w) w)) = []"
proof -
  from assms have "\<forall>p\<in>set (runningBots w). fst p \<in> bp_id ` set (getRunningBots w)"
    by (force simp: registry_ok_def list_all_iff getRunningBots_def Map_values_def)
  then show ?thesis
    by (simp add: stop_each_runningBots)
qed

lemma stopBot_bots_cases:
  "bots (snd (stopBot botId w)) = bots w \<or>
   bots (snd (stopBot botId w)) = map (set_bot_status botId ''stopped'' (clock w)) (bots w)"
  by (cases "Map_has (runningBots w) botId"; cases "accepts (bots_faults w)";
      simp add: stopBot_absent stopBot_accepted stopBot_refused)

lemma stopBot_keeps_stopped:
  assumes "\<forall>p\<in>set (bots w). fst p = k \<longrightarrow> b_status (snd p) = Some ''stopped''"
  shows "\<forall>p\<in>set (bots (snd (stopBot botId w))). fst p = k \<longrightarrow> b_status (snd p) = Some ''stopped''"
  using assms stopBot_bots_cases [of botId w]
  by (fastforce simp: set_bot_status_def)

lemma stop_each_keeps_stopped:
  "\<forall>p\<in>set (bots w). fst p = k \<longrightarrow> b_status (snd p) = Some ''stopped'' \<Longrightarrow>
   \<forall>p\<in>set (bots (snd (stop_each hs w))). fst p = k \<longrightarrow> b_status (snd p) = Some ''stopped''"
proof (induction hs arbitrary: w)
  case Nil
  then show ?case by simp
next
  case (Cons b rest)
  from Cons.IH [OF stopBot_keeps_stopped [OF Cons.prems, of "bp_id b"]]
  show ?case by (simp add: stop_each_step del: stop_each.simps(2))
qed

lemma stopBot_bots_faults:
  "Map_has (runningBots w) botId \<Longrightarrow> bots_faults (snd (stopBot botId w)) = tl (bots_faults w)"
  by (cases "accepts (bots_faults w)") (simp_all add: stopBot_accepted stopBot_refused)

text \<open>
  The stops of a drain meet the fault script in order: the stop of the \<open>i\<close>-th entry of
  the snapshot is the \<open>i\<close>-th statement, and where the store accepts it the stop returns
  \<^verbatim>\<open>true\<close> and the rows of that bot are \<^verbatim>\<open>stopped\<close> at the end of the drain.
\<close>

lemma stop_each_persists:
  assumes "distinct (map bp_id hs)"
    and "\<forall>h\<in>set hs. Map_has (runningBots w) (bp_id h)"
    and "i < length hs"
    and "accepts (drop i (bots_faults w))"
  shows "fst (stop_each hs w) ! i = True \<and>
         (\<forall>p\<in>set (bots (snd (stop_each hs w))).
             fst p = bp_id (hs ! i) \<longrightarrow> b_status (snd p) = Some ''stopped'')"
  using assms
proof (induction hs arbitrary: w i)
  case Nil
  then show ?case by simp
next
  case (Cons b rest)
  let ?w1 = "snd (stopBot (bp_id b) w)"
  from Cons.prems(2) have has: "Map_has (runningBots w) (bp_id b)"
    by simp
  show ?case
  proof (cases i)
    case 0
    with Cons.prems(4) have ok: "accepts (bots_faults w)"
      by simp
    have "\<forall>p\<in>set (bots ?w1). fst p = bp_id b \<longrightarrow> b_status (snd p) = Some ''stopped''"
      by (auto simp: stopBot_accepted [OF has ok] set_bot_status_def)
    from stop_each_keeps_stopped [OF this, of rest] 0 has ok show ?thesis
      by (simp add: stop_each_step stopBot_accepted del: stop_each.simps(2))
  next
    case (Suc j)
    from Cons.prems(1) have d: "distinct (map bp_id rest)"
      by simp
    have present: "\<forall>h\<in>set rest. Map_has (runningBots ?w1) (bp_id h)"
    proof
      fix h assume h: "h \<in> set rest"
      with Cons.prems(1) have "bp_id h \<noteq> bp_id b"
        by (auto simp: image_iff)
      with Cons.prems(2) h show "Map_has (runningBots ?w1) (bp_id h)"
        by (simp add: stopBot_runningBots Map_has_delete)
    qed
    from Cons.prems(3) Suc have j: "j < length rest"
      by simp
    from Cons.prems(4) Suc have ok: "accepts (drop j (bots_faults ?w1))"
      by (simp add: stopBot_bots_faults [OF has] drop_Suc)
    from Cons.IH [OF d present j ok] Suc show ?thesis
      by (simp add: stop_each_step del: stop_each.simps(2))
  qed
qed

lemma registry_ok_ids: "registry_ok m \<Longrightarrow> map bp_id (Map_values m) = map fst m"
  by (simp add: registry_ok_def list_all_iff Map_values_def)

text \<open>
  Claim C5, as amended. On \<^verbatim>\<open>SIGTERM\<close> the handler stops every bot of the snapshot
  of \<^verbatim>\<open>runningBots\<close>, one result per entry whatever the store does; then the
  process exits with code 0. Afterwards \<^verbatim>\<open>runningBots\<close> is empty, and every bot
  whose status write the store accepted (the write of the \<open>i\<close>-th entry is the \<open>i\<close>-th
  statement of the drain) has its rows \<^verbatim>\<open>stopped\<close>. The deployed websites and the
  table \<^verbatim>\<open>websites\<close> are as they were: the handler does not drain them.
\<close>

theorem sigterm_drains_bots:
  "deployedWebsites (on_SIGTERM w) = deployedWebsites w \<and>
   websites (on_SIGTERM w) = websites w \<and>
   exit_code (on_SIGTERM w) = Some 0 \<and>
   length (fst (stop_each (getRunningBots w) w)) = length (runningBots w) \<and>
   (registry_ok (runningBots w) \<longrightarrow>
      runningBots (on_SIGTERM w) = [] \<and>
      (\<forall>i<length (runningBots w). accepts (drop i (bots_faults w)) \<longrightarrow>
         fst (stop_each (getRunningBots w) w) ! i = True \<and>
         (\<forall>p\<in>set (bots (on_SIGTERM w)).
            fst p = fst (runningBots w ! i) \<longrightarrow> b_status (snd p) = Some ''stopped'')))"
proof -
  have frame: "deployedWebsites (on_SIGTERM w) = deployedWebsites w"
    "websites (on_SIGTERM w) = websites w" "exit_code (on_SIGTERM w) = Some 0"
    by (simp_all add: on_SIGTERM_def stop_each_frame)
  have all: "length (fst (stop_each (getRunningBots w) w)) = length (runningBots w)"
    by (simp add: stop_each_length getRunningBots_def Map_values_def)
  have drained: "runningBots (on_SIGTERM w) = []" if "registry_ok (runningBots w)"
    using stop_each_drains [OF that] by (simp add: on_SIGTERM_def)
  have persisted: "fst (stop_each (getRunningBots w) w) ! i = True \<and>
         (\<forall>p\<in>set (bots (on_SIGTERM w)).
            fst p = fst (runningBots w ! i) \<longrightarrow> b_status (snd p) = Some ''stopped'')"
    if ok: "registry_ok (runningBots w)" and i: "i < length (runningBots w)"
      and acc: "accepts (drop i (bots_faults w))" for i
  proof -
    have ids: "map bp_id (getRunningBots w) = map fst (runningBots w)"
      using registry_ok_ids [OF ok] by (simp add: getRunningBots_def)
    from ok have d: "distinct (map bp_id (getRunningBots w))"
      by (simp add: ids) (simp add: registry_ok_def Map_wf_def)
    have "set (map bp_id (getRunningBots w)) = fst ` set (runningBots w)"
      by (simp only: ids set_map)
    then have present: "\<forall>h\<in>set (getRunningBots w). Map_has (runningBots w) (bp_id h)"
      by (auto simp: Map_has_iff_keys)
    from i have len: "i < length (getRunningBots w)"
      by (simp add: getRunningBots_def Map_values_def)
    from i len have "bp_id (getRunningBots w ! i) = fst (runningBots w ! i)"
      using arg_cong [OF ids, of "\<lambda>xs. xs ! i"] by simp
    with stop_each_persists [OF d present len acc] show ?thesis
      by (simp add: on_SIGTERM_def)
  qed
  show ?thesis
    using drained persisted by (intro conjI impI allI frame all) blast+
qed

text \<open>
  The theorem at a worker with one running bot and one deployed website: the bot is
  drained and persisted as stopped.
\<close>

theorem sigterm_drains_bots_witness:
  "registry_ok (runningBots (idle_worker\<lparr>
       runningBots := [(5, new_bot_process 5 idle_worker)],
       deployedWebsites := [(7, new_deployment 7 None idle_worker)],
       bots := [(5, a_bot_row ''running'')], websites := [(7, a_website_row ''active'')]\<rparr>)) \<and>
   runningBots (on_SIGTERM (idle_worker\<lparr>
       runningBots := [(5, new_bot_process 5 idle_worker)],
       deployedWebsites := [(7, new_deployment 7 None idle_worker)],
       bots := [(5, a_bot_row ''running'')], websites := [(7, a_website_row ''active'')]\<rparr>)) = [] \<and>
   exit_code (on_SIGTERM (idle_worker\<lparr>
       runningBots := [(5, new_bot_process 5 idle_worker)],
       deployedWebsites := [(7, new_deployment 7 None idle_worker)],
       bots := [(5, a_bot_row ''running'')], websites := [(7, a_website_row ''active'')]\<rparr>)) = Some 0 \<and>
   0 < length (runningBots (idle_worker\<lparr>
       runningBots := [(5, new_bot_process 5 idle_worker)],
       deployedWebsites := [(7, new_deployment 7 None idle_worker)],
       bots := [(5, a_bot_row ''running'')], websites := [(7, a_website_row ''active'')]\<rparr>)) \<and>
   accepts (drop 0 (bots_faults (idle_worker\<lparr>
       runningBots := [(5, new_bot_process 5 idle_worker)],
       deployedWebsites := [(7, new_deployment 7 None idle_worker)],
       bots := [(5, a_bot_row ''running'')], websites := [(7, a_website_row ''active'')]\<rparr>))) \<and>
   stored_bot_status (on_SIGTERM (idle_worker\<lparr>
       runningBots := [(5, new_bot_process 5 idle_worker)],
       deployedWebsites := [(7, new_deployment 7 None idle_worker)],
       bots := [(5, a_bot_row ''running'')], websites := [(7, a_website_row ''active'')]\<rparr>)) 5
     = Some ''stopped''"
proof -
  let ?w = "idle_worker\<lparr>
       runningBots := [(5, new_bot_process 5 idle_worker)],
       deployedWebsites := [(7, new_deployment 7 None idle_worker)],
       bots := [(5, a_bot_row ''running'')], websites := [(7, a_website_row ''active'')]\<rparr>"
  have ok: "registry_ok (runningBots ?w)"
    by (simp add: registry_ok_def Map_wf_def new_bot_process_def)
  have first: "0 < length (runningBots ?w)" "accepts (drop 0 (bots_faults ?w))"
              "fst (runningBots ?w ! 0) = 5"
    by (simp_all add: idle_worker_def accepts_def)
  note claim = sigterm_drains_bots [of ?w]
  from claim ok have "runningBots (on_SIGTERM ?w) = []" "exit_code (on_SIGTERM ?w) = Some 0"
    by blast+
  moreover from claim ok first
  have "\<forall>p\<in>set (bots (on_SIGTERM ?w)). fst p = 5 \<longrightarrow> b_status (snd p) = Some ''stopped''"
    by metis
  moreover have "map fst (bots (on_SIGTERM ?w)) = [5]"
    by (simp add: on_SIGTERM_def getRunningBots_def Map_values_def stopBot_def Map_get_def
          updateBotStatus_def accepts_def idle_worker_def set_bot_status_def)
  ultimately have "runningBots (on_SIGTERM ?w) = []" "exit_code (on_SIGTERM ?w) = Some 0"
      "stored_bot_status (on_SIGTERM ?w) 5 = Some ''stopped''"
    by (auto simp: stored_bot_status_def map_eq_Cons_conv)
  with ok first(1,2) show ?thesis
    by (intro conjI)
qed

text \<open>
  The handler of \<^verbatim>\<open>SIGINT\<close> exits at once: it stops nothing and writes nothing.
\<close>

lemma sigint_stops_nothing:
  "runningBots (on_SIGINT w) = runningBots w \<and> deployedWebsites (on_SIGINT w) = deployedWebsites w \<and>
   bots (on_SIGINT w) = bots w \<and> websites (on_SIGINT w) = websites w \<and>
   exit_code (on_SIGINT w) = Some 0"
  by (simp add: on_SIGINT_def)

text \<open>
  Claim C5 as stated fails: it has the map of both kinds empty after the drain and every
  entry persisted as stopped or inactive. At the same worker, after \<^verbatim>\<open>SIGTERM\<close> the
  process has exited with code 0 while website 7 is still in \<^verbatim>\<open>deployedWebsites\<close>
  and its row still says \<^verbatim>\<open>active\<close>.
\<close>

theorem sigterm_leaves_websites:
  "exit_code (on_SIGTERM (idle_worker\<lparr>
       runningBots := [(5, new_bot_process 5 idle_worker)],
       deployedWebsites := [(7, new_deployment 7 None idle_worker)],
       bots := [(5, a_bot_row ''running'')], websites := [(7, a_website_row ''active'')]\<rparr>)) = Some 0 \<and>
   Map_has (deployedWebsites (on_SIGTERM (idle_worker\<lparr>
       runningBots := [(5, new_bot_process 5 idle_worker)],
       deployedWebsites := [(7, new_deployment 7 None idle_worker)],
       bots := [(5, a_bot_row ''running'')], websites := [(7, a_website_row ''active'')]\<rparr>))) 7 \<and>
   stored_website_status (on_SIGTERM (idle_worker\<lparr>
       runningBots := [(5, new_bot_process 5 idle_worker)],
       deployedWebsites := [(7, new_deployment 7 None idle_worker)],
       bots := [(5, a_bot_row ''running'')], websites := [(7, a_website_row ''active'')]\<rparr>)) 7
     = Some ''active''"
  by (simp add: on_SIGTERM_def stop_each_frame Map_has_def stored_website_status_def
        a_website_row_def)

subsection \<open>Two calls for one id, and calls for different ids\<close>

lemma startBot_healthy:
  "bots_faults w = [] \<Longrightarrow> bots_faults (snd (startBot botId botPath config w)) = []"
  by (cases "Map_has (runningBots w) botId")
     (simp_all add: startBot_present startBot_accepted accepts_def with_bot_def)

lemma stopBot_healthy:
  "bots_faults w = [] \<Longrightarrow> bots_faults (snd (stopBot botId w)) = []"
  by (cases "Map_has (runningBots w) botId")
     (simp_all add: stopBot_absent stopBot_accepted accepts_def)

lemma startBot_fresh_healthy:
  "bots_faults w = [] \<Longrightarrow> \<not> Map_has (runningBots w) botId \<Longrightarrow>
   fst (startBot botId botPath config w) = Inr True"
  by (simp add: startBot_accepted accepts_def)

lemma sleep_frame:
  "bots_faults (sleep ms w) = bots_faults w" "bots (sleep ms w) = bots w"
  by (simp_all add: sleep_def)

lemma restartBot_healthy:
  assumes "bots_faults w = []"
  shows "fst (restartBot botId botPath config w) = Inr True"
    and "bots_faults (snd (restartBot botId botPath config w)) = []"
proof -
  let ?w2 = "sleep 2000 (snd (stopBot botId w))"
  have absent: "\<not> Map_has (runningBots ?w2) botId"
    by (simp add: sleep_runningBots stopBot_runningBots Map_has_delete)
  have healthy: "bots_faults ?w2 = []"
    using assms by (simp add: sleep_frame stopBot_healthy)
  show "fst (restartBot botId botPath config w) = Inr True"
    using startBot_fresh_healthy [OF healthy absent] by (simp add: restartBot_def)
  show "bots_faults (snd (restartBot botId botPath config w)) = []"
    using startBot_healthy [OF healthy] by (simp add: restartBot_def)
qed

lemma start_within_restart_results:
  assumes "fst (startBot botId botPath config (snd (stopBot botId w))) = Inr True"
  shows "fst (start_within_restart botId botPath config w) = (Inr True, Inr False)"
proof -
  let ?other = "startBot botId botPath config (snd (stopBot botId w))"
  have "\<not> Map_has (runningBots (snd (stopBot botId w))) botId"
    by (simp add: stopBot_runningBots Map_has_delete)
  then have "Map_has (runningBots (sleep 2000 (snd ?other))) botId"
    by (simp add: sleep_runningBots startBot_runningBots Map_has_append_new)
  then have "fst (startBot botId botPath config (sleep 2000 (snd ?other))) = Inr False"
    by (simp add: startBot_present)
  with assms show ?thesis
    by (simp add: start_within_restart_def Let_def)
qed

lemma Map_wf_startBot:
  "Map_wf (runningBots w) \<Longrightarrow> Map_wf (runningBots (snd (startBot botId botPath config w)))"
  by (simp add: startBot_runningBots Map_wf_append_new)

lemma Map_wf_stopBot:
  "Map_wf (runningBots w) \<Longrightarrow> Map_wf (runningBots (snd (stopBot botId w)))"
  by (simp add: stopBot_runningBots Map_wf_delete)

lemma Map_wf_restartBot:
  "Map_wf (runningBots w) \<Longrightarrow> Map_wf (runningBots (snd (restartBot botId botPath config w)))"
  by (simp add: restartBot_def Map_wf_startBot Map_wf_stopBot sleep_runningBots)

lemma Map_wf_start_within_restart:
  "Map_wf (runningBots w) \<Longrightarrow>
   Map_wf (runningBots (snd (start_within_restart botId botPath config w)))"
  by (simp add: start_within_restart_def Let_def Map_wf_startBot Map_wf_stopBot sleep_runningBots)

text \<open>What a call for one id leaves of another id: its handle and its rows.\<close>

lemma Map_get_append_other: "k' \<noteq> k \<Longrightarrow> Map_get (m @ [(k, v)]) k' = Map_get m k'"
  by (induction m) (auto simp: Map_get_def)

lemma other_rows_kept:
  "other \<noteq> botId \<Longrightarrow>
   filter (\<lambda>p. fst p = other) (map (set_bot_status botId status now) rows)
     = filter (\<lambda>p. fst p = other) rows"
  by (induction rows) (auto simp: set_bot_status_def)

lemma startBot_other:
  assumes "other \<noteq> botId"
  shows "Map_get (runningBots (snd (startBot botId botPath config w))) other
           = Map_get (runningBots w) other"
    and "filter (\<lambda>p. fst p = other) (bots (snd (startBot botId botPath config w)))
           = filter (\<lambda>p. fst p = other) (bots w)"
  using assms
  by (cases "Map_has (runningBots w) botId"; cases "accepts (bots_faults w)";
      cases "accepts (tl (bots_faults w))";
      simp add: startBot_present startBot_accepted startBot_refused_once startBot_refused_twice
        with_bot_def Map_get_append_other other_rows_kept)+

lemma stopBot_other:
  assumes "other \<noteq> botId"
  shows "Map_get (runningBots (snd (stopBot botId w))) other = Map_get (runningBots w) other"
    and "filter (\<lambda>p. fst p = other) (bots (snd (stopBot botId w)))
           = filter (\<lambda>p. fst p = other) (bots w)"
  using assms
  by (cases "Map_has (runningBots w) botId"; cases "accepts (bots_faults w)";
      simp add: stopBot_absent stopBot_accepted stopBot_refused Map_get_delete other_rows_kept)+

lemma restartBot_other:
  assumes "other \<noteq> botId"
  shows "Map_get (runningBots (snd (restartBot botId botPath config w))) other
           = Map_get (runningBots w) other"
    and "filter (\<lambda>p. fst p = other) (bots (snd (restartBot botId botPath config w)))
           = filter (\<lambda>p. fst p = other) (bots w)"
  using assms
  by (simp_all add: restartBot_def startBot_other stopBot_other sleep_runningBots sleep_frame)

text \<open>
  Claim C9, as amended. The calls for one id are not serialized. With a store that
  refuses nothing, a start that runs while a restart of the same id waits succeeds, and
  the restart's own start then finds the handle and returns \<^verbatim>\<open>false\<close>, whereas the
  restart returns \<^verbatim>\<open>true\<close> in both runs that make the two calls one after the
  other. What does hold for one id is that no call, and not this run either, leaves more
  than one handle under it: the check of the map and the insertion or removal of the
  handle have no \<^verbatim>\<open>await\<close> between them. A call for one id leaves the handle and the
  rows of every other id as they are.
\<close>

theorem same_id_calls_interleave:
  "(bots_faults w = [] \<longrightarrow>
      fst (start_within_restart botId botPath config w) = (Inr True, Inr False) \<and>
      snd (fst (start_then_restart botId botPath config w)) = Inr True \<and>
      snd (fst (restart_then_start botId botPath config w)) = Inr True) \<and>
   (Map_wf (runningBots w) \<longrightarrow>
      Map_wf (runningBots (snd (startBot botId botPath config w))) \<and>
      Map_wf (runningBots (snd (stopBot botId w))) \<and>
      Map_wf (runningBots (snd (restartBot botId botPath config w))) \<and>
      Map_wf (runningBots (snd (start_within_restart botId botPath config w))) \<and>
      handles_for (runningBots (snd (start_within_restart botId botPath config w))) botId = 1) \<and>
   (other \<noteq> botId \<longrightarrow>
      Map_get (runningBots (snd (startBot botId botPath config w))) other
        = Map_get (runningBots w) other \<and>
      filter (\<lambda>p. fst p = other) (bots (snd (startBot botId botPath config w)))
        = filter (\<lambda>p. fst p = other) (bots w) \<and>
      Map_get (runningBots (snd (stopBot botId w))) other = Map_get (runningBots w) other \<and>
      filter (\<lambda>p. fst p = other) (bots (snd (stopBot botId w)))
        = filter (\<lambda>p. fst p = other) (bots w) \<and>
      Map_get (runningBots (snd (restartBot botId botPath config w))) other
        = Map_get (runningBots w) other \<and>
      filter (\<lambda>p. fst p = other) (bots (snd (restartBot botId botPath config w)))
        = filter (\<lambda>p. fst p = other) (bots w))"
proof (intro conjI impI)
  assume healthy: "bots_faults w = []"
  have "\<not> Map_has (runningBots (snd (stopBot botId w))) botId"
    by (simp add: stopBot_runningBots Map_has_delete)
  with healthy have "fst (startBot botId botPath config (snd (stopBot botId w))) = Inr True"
    by (simp add: startBot_fresh_healthy stopBot_healthy)
  then show "fst (start_within_restart botId botPath config w) = (Inr True, Inr False)"
    by (rule start_within_restart_results)
  show "snd (fst (start_then_restart botId botPath config w)) = Inr True"
    using healthy by (simp add: start_then_restart_def Let_def restartBot_healthy startBot_healthy)
  show "snd (fst (restart_then_start botId botPath config w)) = Inr True"
    using healthy by (simp add: restart_then_start_def Let_def restartBot_healthy)
next
  assume wf: "Map_wf (runningBots w)"
  show "Map_wf (runningBots (snd (startBot botId botPath config w)))"
    using wf by (rule Map_wf_startBot)
  show "Map_wf (runningBots (snd (stopBot botId w)))"
    using wf by (rule Map_wf_stopBot)
  show "Map_wf (runningBots (snd (restartBot botId botPath config w)))"
    using wf by (rule Map_wf_restartBot)
  show after: "Map_wf (runningBots (snd (start_within_restart botId botPath config w)))"
    using wf by (rule Map_wf_start_within_restart)
  have "Map_has (runningBots (snd (start_within_restart botId botPath config w))) botId"
    by (simp add: start_within_restart_def Let_def startBot_runningBots sleep_runningBots
          Map_has_append_new)
  with after show "handles_for (runningBots (snd (start_within_restart botId botPath config w))) botId = 1"
    by (simp add: handles_for_wf)
next
  assume "other \<noteq> botId"
  then show
    "Map_get (runningBots (snd (startBot botId botPath config w))) other
        = Map_get (runningBots w) other"
    "filter (\<lambda>p. fst p = other) (bots (snd (startBot botId botPath config w)))
        = filter (\<lambda>p. fst p = other) (bots w)"
    "Map_get (runningBots (snd (stopBot botId w))) other = Map_get (runningBots w) other"
    "filter (\<lambda>p. fst p = other) (bots (snd (stopBot botId w)))
        = filter (\<lambda>p. fst p = other) (bots w)"
    "Map_get (runningBots (snd (restartBot botId botPath config w))) other
        = Map_get (runningBots w) other"
    "filter (\<lambda>p. fst p = other) (bots (snd (restartBot botId botPath config w)))
        = filter (\<lambda>p. fst p = other) (bots w)"
    by (simp_all add: startBot_other stopBot_other restartBot_other)
qed

text \<open>
  The theorem at a worker on which bot 2 runs and bot 1 does not, the store refusing
  nothing: the start of bot 1 within its restart makes the restart return \<^verbatim>\<open>false\<close>,
  one handle is left for bot 1, and a restart of bot 1 leaves the handle and the row of
  bot 2 alone.
\<close>

theorem same_id_calls_interleave_witness:
  "bots_faults (idle_worker\<lparr>runningBots := [(2, new_bot_process 2 idle_worker)],
       bots := [(1, a_bot_row ''stopped''), (2, a_bot_row ''running'')]\<rparr>) = [] \<and>
   Map_wf (runningBots (idle_worker\<lparr>runningBots := [(2, new_bot_process 2 idle_worker)],
       bots := [(1, a_bot_row ''stopped''), (2, a_bot_row ''running'')]\<rparr>)) \<and>
   (2::int) \<noteq> 1 \<and>
   fst (start_within_restart 1 [] EmptyObject
          (idle_worker\<lparr>runningBots := [(2, new_bot_process 2 idle_worker)],
             bots := [(1, a_bot_row ''stopped''), (2, a_bot_row ''running'')]\<rparr>))
     = (Inr True, Inr False) \<and>
   handles_for (runningBots (snd (start_within_restart 1 [] EmptyObject
          (idle_worker\<lparr>runningBots := [(2, new_bot_process 2 idle_worker)],
             bots := [(1, a_bot_row ''stopped''), (2, a_bot_row ''running'')]\<rparr>)))) 1 = 1 \<and>
   Map_get (runningBots (snd (restartBot 1 [] EmptyObject
          (idle_worker\<lparr>runningBots := [(2, new_bot_process 2 idle_worker)],
             bots := [(1, a_bot_row ''stopped''), (2, a_bot_row ''running'')]\<rparr>)))) 2
     = Some (new_bot_process 2 idle_worker) \<and>
   filter (\<lambda>p. fst p = 2) (bots (snd (restartBot 1 [] EmptyObject
          (idle_worker\<lparr>runningBots := [(2, new_bot_process 2 idle_worker)],
             bots := [(1, a_bot_row ''stopped''), (2, a_bot_row ''running'')]\<rparr>))))
     = [(2, a_bot_row ''running'')]"
proof -
  let ?w = "idle_worker\<lparr>runningBots := [(2, new_bot_process 2 idle_worker)],
       bots := [(1, a_bot_row ''stopped''), (2, a_bot_row ''running'')]\<rparr>"
  have healthy: "bots_faults ?w = []"
    by (simp add: idle_worker_def)
  have wf: "Map_wf (runningBots ?w)"
    by (simp add: Map_wf_def)
  have ids: "(2::int) \<noteq> 1"
    by simp
  have before: "Map_get (runningBots ?w) 2 = Some (new_bot_process 2 idle_worker)"
    "filter (\<lambda>p. fst p = 2) (bots ?w) = [(2, a_bot_row ''running'')]"
    by (simp_all add: Map_get_def)
  note claim = same_id_calls_interleave [of ?w 1 "[]" EmptyObject 2]
  from claim healthy have r: "fst (start_within_restart 1 [] EmptyObject ?w) = (Inr True, Inr False)"
    by blast
  from claim wf have h: "handles_for (runningBots (snd (start_within_restart 1 [] EmptyObject ?w))) 1 = 1"
    by blast
  from claim ids have
    "Map_get (runningBots (snd (restartBot 1 [] EmptyObject ?w))) 2 = Map_get (runningBots ?w) 2"
    "filter (\<lambda>p. fst p = 2) (bots (snd (restartBot 1 [] EmptyObject ?w)))
       = filter (\<lambda>p. fst p = 2) (bots ?w)"
    by blast+
  then have o: "Map_get (runningBots (snd (restartBot 1 [] EmptyObject ?w))) 2
       = Some (new_bot_process 2 idle_worker)"
    "filter (\<lambda>p. fst p = 2) (bots (snd (restartBot 1 [] EmptyObject ?w)))
       = [(2, a_bot_row ''running'')]"
    by (simp_all only: before)
  show ?thesis
    by (intro conjI healthy wf ids r h o)
qed

text \<open>
  Claim C9 as stated fails: it has the calls for one id serialized. On the worker that
  has just started, a \<^verbatim>\<open>startBot(1)\<close> that runs while \<^verbatim>\<open>restartBot(1)\<close> waits
  returns \<^verbatim>\<open>true\<close> and the restart returns \<^verbatim>\<open>false\<close>; made one after the other,
  in either order, the two calls never give these results.
\<close>

theorem restart_races_with_start:
  "fst (start_within_restart 1 [] EmptyObject idle_worker) = (Inr True, Inr False) \<and>
   fst (start_then_restart 1 [] EmptyObject idle_worker) = (Inr True, Inr True) \<and>
   fst (restart_then_start 1 [] EmptyObject idle_worker) = (Inr False, Inr True)"
  by (simp add: start_within_restart_def start_then_restart_def restart_then_start_def
        restartBot_def stopBot_def startBot_def sleep_def idle_worker_def Map_get_def
        Map_has_def Map_delete_def Math_random_def updateBotStatus_def accepts_def Let_def)

subsection \<open>The daily backup\<close>

lemma take_below_drop:
  fixes xs :: "'a::linorder list"
  assumes "sorted xs" and "distinct xs" and "a \<in> set (take k xs)" and "b \<in> set (drop k xs)"
  shows "a < b"
proof -
  have split: "xs = take k xs @ drop k xs" by simp
  from assms(1) have "sorted (take k xs @ drop k xs)" by simp
  with assms(3,4) have "a \<le> b" unfolding sorted_append by blast
  moreover from assms(2) have "distinct (take k xs @ drop k xs)" by simp
  with assms(3,4) have "a \<noteq> b" unfolding distinct_append by blast
  ultimately show ?thesis by simp
qed

lemma take_insort_subset:
  fixes xs :: "'a::linorder list"
  shows "set (take n xs) \<subseteq> set (take (Suc n) (insort x xs))"
proof (induction xs arbitrary: n)
  case Nil
  then show ?case by simp
next
  case (Cons y ys)
  show ?case
  proof (cases n)
    case 0
    then show ?thesis by simp
  next
    case (Suc m)
    with Cons.IH [of m] show ?thesis by auto
  qed
qed

lemma sort_snoc_new:
  fixes xs :: "'a::linorder list"
  assumes "distinct xs" and "x \<notin> set xs"
  shows "sort (xs @ [x]) = insort x (sort xs)"
proof (rule sorted_distinct_set_unique)
  show "sorted (sort (xs @ [x]))" by simp
  show "distinct (sort (xs @ [x]))" using assms by simp
  show "sorted (insort x (sort xs))" by (simp add: sorted_insort)
  show "distinct (insort x (sort xs))" using assms by (simp add: distinct_insort)
  show "set (sort (xs @ [x])) = set (insort x (sort xs))" by (simp add: set_insort_key)
qed

lemma fold_unlinkSync:
  "fold unlinkSync files fs =
     fs\<lparr>backups_dir := map_option (filter (\<lambda>p. fst p \<notin> set files)) (backups_dir fs)\<rparr>"
proof (induction files arbitrary: fs)
  case Nil
  then show ?case by (cases "backups_dir fs") simp_all
next
  case (Cons f files)
  have "filter (\<lambda>p. fst p \<notin> set files) (Map_delete f es) = filter (\<lambda>p. fst p \<notin> set (f # files)) es"
    for es :: "(string \<times> 'a) list"
    by (auto simp: Map_delete_def intro: filter_cong)
  note eq = this
  have step: "fold unlinkSync (f # files) fs = fold unlinkSync files (unlinkSync f fs)"
    by simp
  show ?case
    unfolding step Cons.IH
    by (cases "backups_dir fs") (simp_all add: unlinkSync_def eq)
qed

lemma backup_task_run:
  assumes "database_file fs = Some content"
  shows "backup_task isoString fs =
     fs\<lparr>backups_dir := Some (filter
        (\<lambda>p. fst p \<notin> set (doomed (filter (\<lambda>file. startsWith file ''database-backup-'')
                                   (map fst (entries_after_copy isoString content fs)))))
        (entries_after_copy isoString content fs))\<rparr>"
proof (cases "backups_dir fs")
  case None
  with assms show ?thesis
    by (simp add: backup_task_def copyFileSync_def readdirSync_def entries_after_copy_def
          backupPath_def doomed_def Let_def fold_unlinkSync)
next
  case (Some entries)
  with assms show ?thesis
    by (simp add: backup_task_def copyFileSync_def readdirSync_def entries_after_copy_def
          backupPath_def doomed_def Let_def fold_unlinkSync)
qed

lemma backup_task_no_database:
  "database_file fs = None \<Longrightarrow>
   backup_task isoString fs = (if backups_dir fs = None then fs\<lparr>backups_dir := Some []\<rparr> else fs)"
  by (simp add: backup_task_def copyFileSync_def Let_def)

lemma keep_latest:
  fixes files :: "'a::linorder list" and n :: nat
  assumes "distinct files"
  defines "gone \<equiv> take (length files - n) (sort files)"
  defines "kept \<equiv> filter (\<lambda>f. f \<notin> set gone) files"
  shows "set kept = set (drop (length files - n) (sort files))"
    and "length kept = min n (length files)"
    and "\<forall>old\<in>set gone. \<forall>new\<in>set kept. old < new"
    and "set gone \<union> set kept = set files"
proof -
  let ?s = "sort files" and ?k = "length files - n"
  from assms(1) have d: "distinct ?s" by simp
  have parts: "set files = set (take ?k ?s) \<union> set (drop ?k ?s)"
    using set_append [of "take ?k ?s" "drop ?k ?s"] by simp
  from d have "distinct (take ?k ?s @ drop ?k ?s)" by simp
  then have disjoint: "set (take ?k ?s) \<inter> set (drop ?k ?s) = {}"
    unfolding distinct_append by blast
  from parts disjoint show kept: "set kept = set (drop ?k ?s)"
    by (auto simp: kept_def gone_def)
  from assms(1) have "distinct kept" by (simp add: kept_def)
  then have "length kept = card (set kept)" by (simp add: distinct_card)
  also have "\<dots> = length (drop ?k ?s)" using d by (simp add: kept distinct_card)
  also have "\<dots> = min n (length files)" by auto
  finally show "length kept = min n (length files)" .
  show "\<forall>old\<in>set gone. \<forall>new\<in>set kept. old < new"
    using take_below_drop [of ?s _ ?k] d by (simp add: kept gone_def)
  from parts show "set gone \<union> set kept = set files"
    by (simp add: kept gone_def)
qed

lemma insort_newest:
  fixes xs :: "'a::linorder list"
  shows "\<forall>x\<in>set xs. x < p \<Longrightarrow> insort p xs = xs @ [p]"
  by (induction xs) auto

lemma Map_set_names:
  "map fst (Map_set k v m) = (if k \<in> set (map fst m) then map fst m else map fst m @ [k])"
  by (induction m) auto

lemma backupPath_is_backup: "startsWith (backupPath isoString) ''database-backup-''"
  by (simp add: startsWith_def backupPath_def)

lemma names_after_copy:
  "map fst (entries_after_copy isoString content fs) =
     (if backupPath isoString \<in> set (readdirSync fs) then readdirSync fs
      else readdirSync fs @ [backupPath isoString])"
  by (cases "backups_dir fs") (simp_all add: entries_after_copy_def readdirSync_def Map_set_names)

lemma backups_after_copy:
  "filter (\<lambda>file. startsWith file ''database-backup-'')
          (map fst (entries_after_copy isoString content fs)) = snapshots_after_copy isoString fs"
  by (simp add: names_after_copy backups_in_def backupPath_is_backup snapshots_after_copy_def)

lemma backup_task_entries:
  assumes "database_file fs = Some content"
  shows "backups_dir (backup_task isoString fs) =
     Some (filter (\<lambda>p. fst p \<notin> set (doomed (snapshots_after_copy isoString fs)))
             (entries_after_copy isoString content fs))"
  unfolding backup_task_run [OF assms] backups_after_copy by simp

lemma readdirSync_backup_task:
  assumes "database_file fs = Some content"
  shows "readdirSync (backup_task isoString fs) =
     filter (\<lambda>f. f \<notin> set (doomed (snapshots_after_copy isoString fs)))
       (map fst (entries_after_copy isoString content fs))"
proof -
  have "map fst (filter (\<lambda>p. fst p \<notin> D) es) = filter (\<lambda>f. f \<notin> D) (map fst es)"
    for D and es :: "(string \<times> 'c) list"
    by (induction es) auto
  then show ?thesis
    by (simp add: readdirSync_def backup_task_entries [OF assms])
qed

lemma backups_in_backup_task:
  assumes "database_file fs = Some content"
  shows "backups_in (backup_task isoString fs) =
     filter (\<lambda>f. f \<notin> set (doomed (snapshots_after_copy isoString fs)))
       (snapshots_after_copy isoString fs)"
proof -
  have "backups_in (backup_task isoString fs) =
      filter (\<lambda>f. f \<notin> set (doomed (snapshots_after_copy isoString fs)))
        (filter (\<lambda>file. startsWith file ''database-backup-'')
           (map fst (entries_after_copy isoString content fs)))"
    unfolding backups_in_def readdirSync_backup_task [OF assms] filter_filter
    by (rule filter_cong) auto
  then show ?thesis
    by (simp only: backups_after_copy)
qed

lemma doomed_are_backups:
  "f \<in> set (doomed (snapshots_after_copy isoString fs)) \<Longrightarrow> startsWith f ''database-backup-''"
proof -
  assume "f \<in> set (doomed (snapshots_after_copy isoString fs))"
  then have "f \<in> set (sort (snapshots_after_copy isoString fs))"
    unfolding doomed_def by (rule in_set_takeD)
  then show ?thesis
    by (auto simp: snapshots_after_copy_def backups_in_def backupPath_is_backup split: if_splits)
qed

lemma others_in_backup_task:
  assumes "database_file fs = Some content"
  shows "filter (\<lambda>file. \<not> startsWith file ''database-backup-'') (readdirSync (backup_task isoString fs))
       = filter (\<lambda>file. \<not> startsWith file ''database-backup-'') (readdirSync fs)"
proof -
  have "filter (\<lambda>file. \<not> startsWith file ''database-backup-'') (readdirSync (backup_task isoString fs))
      = filter (\<lambda>file. \<not> startsWith file ''database-backup-'')
          (map fst (entries_after_copy isoString content fs))"
    unfolding readdirSync_backup_task [OF assms] filter_filter
    by (rule filter_cong) (auto dest: doomed_are_backups)
  also have "\<dots> = filter (\<lambda>file. \<not> startsWith file ''database-backup-'') (readdirSync fs)"
    by (simp add: names_after_copy backupPath_is_backup)
  finally show ?thesis .
qed

lemma nth_in_take: "n < k \<Longrightarrow> n < length xs \<Longrightarrow> xs ! n \<in> set (take k xs)"
  using nth_mem [of n "take k xs"] by simp

lemma map_of_filter_names:
  "map_of (filter (\<lambda>p. fst p \<notin> D) es) k = (if k \<in> D then None else map_of es k)"
  by (induction es) auto

lemma map_of_Map_set: "map_of (Map_set k v m) k = Some v"
  by (induction m) auto

lemma distinct_snapshots_after_copy:
  "distinct (readdirSync fs) \<Longrightarrow> distinct (snapshots_after_copy isoString fs)"
  by (auto simp: snapshots_after_copy_def backups_in_def)

lemma set_snapshots_after_copy:
  "set (snapshots_after_copy isoString fs) = insert (backupPath isoString) (set (backups_in fs))"
  by (auto simp: snapshots_after_copy_def backups_in_def backupPath_is_backup)

lemma newest_not_doomed:
  assumes d: "distinct (snapshots_after_copy isoString fs)"
    and newest: "\<forall>old\<in>set (backups_in fs). old < backupPath isoString"
  shows "backupPath isoString \<notin> set (doomed (snapshots_after_copy isoString fs))"
proof
  let ?S = "snapshots_after_copy isoString fs" and ?p = "backupPath isoString"
  let ?k = "length ?S - 7"
  assume "?p \<in> set (doomed ?S)"
  then have inside: "?p \<in> set (take ?k (sort ?S))"
    by (simp add: doomed_def)
  have "?S \<noteq> []"
    using set_snapshots_after_copy [of isoString fs] by auto
  then have "drop ?k (sort ?S) \<noteq> []"
    by (cases ?S) auto
  then obtain b where b: "b \<in> set (drop ?k (sort ?S))"
    by (cases "drop ?k (sort ?S)") auto
  from take_below_drop [OF _ _ inside b] d have "?p < b"
    by simp
  moreover from b have "b \<in> set ?S"
    using in_set_dropD by fastforce
  with newest have "b \<le> ?p"
    by (auto simp: set_snapshots_after_copy)
  ultimately show False by simp
qed

text \<open>
  Claim C6. When the database file is there to be copied, the task puts one snapshot
  named after the time stamp into the directory and then keeps, of the snapshots, the 7
  that come last in the order of their names (all of them when there are at most 7): the
  snapshots deleted come before every snapshot kept, whatever the order in which the
  directory lists them, and no other file is touched. A snapshot whose name comes after
  all the others, as a later time stamp's does, is kept, with the content of the
  database. With 9 snapshots in the directory and the new one, exactly 7 remain and the
  two oldest of the 9 are gone; when the new one is the latest, the 7 are the new one and
  the 6 latest of the 9.
\<close>

theorem backup_keeps_latest_seven:
  "database_file fs = Some content \<Longrightarrow> distinct (readdirSync fs) \<Longrightarrow>
   set (snapshots_after_copy isoString fs)
     = insert (backupPath isoString) (set (backups_in fs)) \<and>
   length (backups_in (backup_task isoString fs))
     = min 7 (length (snapshots_after_copy isoString fs)) \<and>
   set (backups_in (backup_task isoString fs))
     = set (drop (length (snapshots_after_copy isoString fs) - 7)
              (sort (snapshots_after_copy isoString fs))) \<and>
   (\<forall>old\<in>set (snapshots_after_copy isoString fs) - set (backups_in (backup_task isoString fs)).
      \<forall>kept\<in>set (backups_in (backup_task isoString fs)). old < kept) \<and>
   filter (\<lambda>file. \<not> startsWith file ''database-backup-'') (readdirSync (backup_task isoString fs))
     = filter (\<lambda>file. \<not> startsWith file ''database-backup-'') (readdirSync fs) \<and>
   ((\<forall>old\<in>set (backups_in fs). old < backupPath isoString) \<longrightarrow>
      read_backup (backup_task isoString fs) (backupPath isoString) = Some content) \<and>
   (length (backups_in fs) = 9 \<and> backupPath isoString \<notin> set (readdirSync fs) \<longrightarrow>
      length (backups_in (backup_task isoString fs)) = 7 \<and>
      sort (backups_in fs) ! 0 \<notin> set (backups_in (backup_task isoString fs)) \<and>
      sort (backups_in fs) ! 1 \<notin> set (backups_in (backup_task isoString fs))) \<and>
   (length (backups_in fs) = 9 \<and> (\<forall>old\<in>set (backups_in fs). old < backupPath isoString) \<longrightarrow>
      set (backups_in (backup_task isoString fs))
        = insert (backupPath isoString) (set (drop 3 (sort (backups_in fs)))))"
proof -
  assume db: "database_file fs = Some content" and names: "distinct (readdirSync fs)"
  let ?S = "snapshots_after_copy isoString fs" and ?p = "backupPath isoString"
  let ?after = "backups_in (backup_task isoString fs)" and ?old = "backups_in fs"
  note after = backups_in_backup_task [OF db, of isoString]
  have d: "distinct ?S"
    using names by (rule distinct_snapshots_after_copy)
  note latest = keep_latest [OF d, of 7, folded doomed_def, folded after]
  have c1: "set ?S = insert ?p (set ?old)"
    by (rule set_snapshots_after_copy)
  have c2: "length ?after = min 7 (length ?S)"
    by (rule latest(2))
  have c3: "set ?after = set (drop (length ?S - 7) (sort ?S))"
    by (rule latest(1))
  have c4: "\<forall>old\<in>set ?S - set ?after. \<forall>kept\<in>set ?after. old < kept"
    using latest(3,4) by blast
  have c5: "filter (\<lambda>file. \<not> startsWith file ''database-backup-'') (readdirSync (backup_task isoString fs))
     = filter (\<lambda>file. \<not> startsWith file ''database-backup-'') (readdirSync fs)"
    by (rule others_in_backup_task [OF db])
  have c6: "read_backup (backup_task isoString fs) ?p = Some content"
    if "\<forall>old\<in>set ?old. old < ?p"
    using newest_not_doomed [OF d that]
    by (simp add: read_backup_def backup_task_entries [OF db] map_of_filter_names
          entries_after_copy_def map_of_Map_set)
  have old_d: "distinct ?old"
    using names by (simp add: backups_in_def)
  have c7: "length ?after = 7 \<and> sort ?old ! 0 \<notin> set ?after \<and> sort ?old ! 1 \<notin> set ?after"
    if nine: "length ?old = 9" and new: "?p \<notin> set (readdirSync fs)"
  proof -
    from new have S: "?S = ?old @ [?p]"
      by (simp add: snapshots_after_copy_def)
    from new have fresh: "?p \<notin> set ?old"
      by (simp add: backups_in_def)
    have sorted: "sort ?S = insort ?p (sort ?old)"
      unfolding S using old_d fresh by (rule sort_snoc_new)
    from nine have "sort ?old ! 0 \<in> set (take 2 (sort ?old))" "sort ?old ! 1 \<in> set (take 2 (sort ?old))"
      by (simp_all add: nth_in_take)
    with take_insort_subset [of 2 "sort ?old" ?p]
    have "sort ?old ! 0 \<in> set (take 3 (sort ?S))" "sort ?old ! 1 \<in> set (take 3 (sort ?S))"
      by (auto simp: sorted numeral_3_eq_3 numeral_2_eq_2)
    moreover from nine have "doomed ?S = take 3 (sort ?S)"
      by (simp add: doomed_def S)
    ultimately have "sort ?old ! 0 \<in> set (doomed ?S)" "sort ?old ! 1 \<in> set (doomed ?S)"
      by simp_all
    moreover from nine have "length ?after = 7"
      by (simp add: c2 S)
    ultimately show ?thesis
      by (simp add: after)
  qed
  have c8: "set ?after = insert ?p (set (drop 3 (sort ?old)))"
    if nine: "length ?old = 9" and newest: "\<forall>old\<in>set ?old. old < ?p"
  proof -
    from newest have fresh: "?p \<notin> set ?old"
      by auto
    then have "?p \<notin> set (readdirSync fs)"
      by (simp add: backups_in_def backupPath_is_backup)
    then have S: "?S = ?old @ [?p]"
      by (simp add: snapshots_after_copy_def)
    have "sort ?S = insort ?p (sort ?old)"
      unfolding S using old_d fresh by (rule sort_snoc_new)
    also have "\<dots> = sort ?old @ [?p]"
      using newest by (simp add: insort_newest)
    finally show ?thesis
      using nine by (simp add: c3) (simp add: S)
  qed
  from c6 have c6': "(\<forall>old\<in>set ?old. old < ?p) \<longrightarrow>
      read_backup (backup_task isoString fs) ?p = Some content"
    by (rule impI)
  from c7 have c7': "length ?old = 9 \<and> ?p \<notin> set (readdirSync fs) \<longrightarrow>
      length ?after = 7 \<and> sort ?old ! 0 \<notin> set ?after \<and> sort ?old ! 1 \<notin> set ?after"
    by (intro impI) (elim conjE)
  from c8 have c8': "length ?old = 9 \<and> (\<forall>old\<in>set ?old. old < ?p) \<longrightarrow>
      set ?after = insert ?p (set (drop 3 (sort ?old)))"
    by (intro impI) (elim conjE)
  show ?thesis
    by (intro conjI c1 c2 c3 c4 c5 c6' c7' c8')
qed

text \<open>
  The theorem at a directory that lists nine snapshots and one other file, in no
  particular order, the task running on 10 March: seven snapshots remain, those of
  1 March and 2 March are gone, and the new one holds the database.
\<close>

theorem backup_keeps_latest_seven_witness:
  "database_file \<lparr>database_file = Some 10, backups_dir = Some nine_backups\<rparr> = Some 10 \<and>
   distinct (readdirSync \<lparr>database_file = Some 10, backups_dir = Some nine_backups\<rparr>) \<and>
   length (backups_in \<lparr>database_file = Some 10, backups_dir = Some nine_backups\<rparr>) = 9 \<and>
   backupPath ''2024-03-10T04:00:00.005Z''
     \<notin> set (readdirSync \<lparr>database_file = Some 10, backups_dir = Some nine_backups\<rparr>) \<and>
   list_all (\<lambda>old. old < backupPath ''2024-03-10T04:00:00.005Z'')
     (backups_in \<lparr>database_file = Some 10, backups_dir = Some nine_backups\<rparr>) \<and>
   length (backups_in (backup_task ''2024-03-10T04:00:00.005Z''
      \<lparr>database_file = Some 10, backups_dir = Some nine_backups\<rparr>)) = 7 \<and>
   ''database-backup-2024-03-01T04-00-00-007Z.sqlite''
     \<notin> set (backups_in (backup_task ''2024-03-10T04:00:00.005Z''
      \<lparr>database_file = Some 10, backups_dir = Some nine_backups\<rparr>)) \<and>
   ''database-backup-2024-03-02T04-00-00-015Z.sqlite''
     \<notin> set (backups_in (backup_task ''2024-03-10T04:00:00.005Z''
      \<lparr>database_file = Some 10, backups_dir = Some nine_backups\<rparr>)) \<and>
   read_backup (backup_task ''2024-03-10T04:00:00.005Z''
      \<lparr>database_file = Some 10, backups_dir = Some nine_backups\<rparr>)
      (backupPath ''2024-03-10T04:00:00.005Z'') = Some 10"
proof -
  let ?fs = "\<lparr>database_file = Some (10::nat), backups_dir = Some nine_backups\<rparr>"
  let ?iso = "''2024-03-10T04:00:00.005Z''"
  have db: "database_file ?fs = Some 10"
    by simp
  have names: "distinct (readdirSync ?fs)"
    by code_simp
  have nine: "length (backups_in ?fs) = 9"
    by code_simp
  have new: "backupPath ?iso \<notin> set (readdirSync ?fs)"
    by code_simp
  have latest: "list_all (\<lambda>old. old < backupPath ?iso) (backups_in ?fs)"
    by code_simp
  then have newest: "\<forall>old\<in>set (backups_in ?fs). old < backupPath ?iso"
    by (simp add: list_all_iff)
  have oldest: "sort (backups_in ?fs) ! 0 = ''database-backup-2024-03-01T04-00-00-007Z.sqlite''"
               "sort (backups_in ?fs) ! 1 = ''database-backup-2024-03-02T04-00-00-015Z.sqlite''"
    by code_simp+
  note claim = backup_keeps_latest_seven [OF db names, of ?iso]
  from claim nine new
  have "length (backups_in (backup_task ?iso ?fs)) = 7"
       "sort (backups_in ?fs) ! 0 \<notin> set (backups_in (backup_task ?iso ?fs))"
       "sort (backups_in ?fs) ! 1 \<notin> set (backups_in (backup_task ?iso ?fs))"
    by blast+
  moreover from claim newest have "read_backup (backup_task ?iso ?fs) (backupPath ?iso) = Some 10"
    by blast
  ultimately show ?thesis
    using db names nine new latest unfolding oldest by (intro conjI)
qed

end
